theory Spec2Isabelle
  imports Main "HOL-Library.Word" "HOL-Library.Multiset"
begin

section \<open>Data model of \<open>firmware/src/sensors.c\<close>\<close>

type_synonym u32 = "32 word"
type_synonym u64 = "64 word"

text \<open>The sentinel rates and the latency sentinel, as the \<open>#define\<close>s of the file.\<close>

definition MAX_CLI_SENS_MATRIX_SZ :: nat where
  "MAX_CLI_SENS_MATRIX_SZ = 64"

definition SENSOR_RATE_OFF :: u32 where
  "SENSOR_RATE_OFF = 0x00000000"

definition SENSOR_RATE_POWERING_ON :: u32 where
  "SENSOR_RATE_POWERING_ON = 0xFFFFFFF0"

definition SENSOR_RATE_POWERING_OFF :: u32 where
  "SENSOR_RATE_POWERING_OFF = 0xFFFFFFF1"

definition SENSOR_RATE_FW_UPLOADING :: u32 where
  "SENSOR_RATE_FW_UPLOADING = 0xFFFFFFF2"

definition SENSOR_RATE_IMPOSSIBLE :: u32 where
  "SENSOR_RATE_IMPOSSIBLE = 0xFFFFFFF3"

definition SENSOR_LATENCY_INVALID :: u64 where
  "SENSOR_LATENCY_INVALID = 0xFFFFFFFFFFFFFFFF"

text \<open>
  The header \<open>sensors.h\<close> is not part of the sources. The three macros of it that
  \<open>sensors.c\<close> uses are taken as parameters: every function that depends on one of them
  receives this record.
\<close>

record SensorsH =
  SENSOR_RATE_ONDEMAND :: u32
  SENSOR_RATE_ONCHANGE :: u32
  MAX_REGISTERED_SENSORS :: nat

text \<open>
  \<open>struct SensorInfo\<close> (declared in \<open>sensors.h\<close>): the two members the file reads.
  \<open>supportedRates\<close> is the C array as it lies in memory, terminator included when it has one.
\<close>

record SensorInfo =
  sensorType :: u32
  supportedRates :: "u32 list"

text \<open>A \<open>TaggedPtr\<close> is an opaque machine word: a pointer to the ops struct or an app tid.\<close>

type_synonym TaggedPtr = u32

text \<open>\<open>struct Sensor\<close>. The pointer \<open>si\<close> is \<open>None\<close> when it is \<open>NULL\<close>.\<close>

record Sensor =
  si :: "SensorInfo option"
  handle :: u32
  currentLatency :: u64
  currentRate :: u32
  callInfo :: TaggedPtr

text \<open>\<open>struct SensorsInternalEvent\<close>, the anonymous struct of its union.\<close>

record SensorsInternalEvent =
  evt_handle :: u32
  evt_value1 :: u32
  evt_value2 :: u64

text \<open>\<open>struct SensorsClientRequest\<close>.\<close>

record SensorsClientRequest =
  req_handle :: u32
  req_clientId :: u32
  req_latency :: u64
  req_rate :: u32

text \<open>
  The calls that leave the file through a sensor's binding (\<open>sensorCallFunc*\<close>). Each
  dispatch is recorded together with the \<open>callInfo\<close> it went through; what it returns
  (the driver's answer, or whether the event could be enqueued for an app sensor) is
  decided outside the file and supplied as a function \<open>drv\<close>.
\<close>

datatype DriverCall =
    CallPower bool
  | CallFwUpld
  | CallSetRate u32 u64
  | CallFlush
  | CallTrigger

type_synonym DriverLog = "(TaggedPtr \<times> DriverCall) list"
type_synonym Driver = "TaggedPtr \<Rightarrow> DriverCall \<Rightarrow> bool"

text \<open>
  The file's static state. \<open>mCliSensMatrix\<close> is the slab of client requests, as the list of
  its cells in \<open>slabAllocatorGetNth\<close> order: \<open>None\<close> is a free cell (\<open>NULL\<close>).
  \<open>mSensorsUsed\<close> is the bitset of claimed slots. \<open>drvLog\<close> collects the binding calls made
  so far. The pool of internal events and the scheduler's queue belong to the
  collaborators and are not tracked.
\<close>

record State =
  mSensors :: "Sensor list"
  mSensorsUsed :: "bool list"
  mCliSensMatrix :: "SensorsClientRequest option list"
  mNextSensorHandle :: u32
  drvLog :: DriverLog

text \<open>
  The state after a successful \<open>sensorsInit\<close>: the statics are zero-initialised, the
  bitset is cleared and the request slab has \<open>MAX_CLI_SENS_MATRIX_SZ\<close> free cells.
\<close>

definition zeroSensor :: Sensor where
  "zeroSensor = \<lparr>si = None, handle = 0, currentLatency = 0, currentRate = 0, callInfo = 0\<rparr>"

definition sensorsInit :: "SensorsH \<Rightarrow> State" where
  "sensorsInit k =
     \<lparr>mSensors = replicate (MAX_REGISTERED_SENSORS k) zeroSensor,
      mSensorsUsed = replicate (MAX_REGISTERED_SENSORS k) False,
      mCliSensMatrix = replicate MAX_CLI_SENS_MATRIX_SZ None,
      mNextSensorHandle = 0,
      drvLog = []\<rparr>"

section \<open>Registry lookup\<close>

text \<open>
  \<open>sensorFindByHandle\<close>: the first slot whose handle equals the argument, as its index in
  \<open>mSensors\<close>; \<open>None\<close> is \<open>NULL\<close>. The comparison is made for every handle value, zero
  included.
\<close>

primrec sensorFindByHandle :: "Sensor list \<Rightarrow> u32 \<Rightarrow> nat option" where
  "sensorFindByHandle [] h = None"
| "sensorFindByHandle (s # ss) h =
     (if handle s = h then Some 0 else map_option Suc (sensorFindByHandle ss h))"

section \<open>Binding dispatch\<close>

definition sensorCallFuncPower :: "Driver \<Rightarrow> Sensor \<Rightarrow> bool \<Rightarrow> bool \<times> DriverLog" where
  "sensorCallFuncPower drv s on =
     (drv (callInfo s) (CallPower on), [(callInfo s, CallPower on)])"

definition sensorCallFuncFwUpld :: "Driver \<Rightarrow> Sensor \<Rightarrow> bool \<times> DriverLog" where
  "sensorCallFuncFwUpld drv s = (drv (callInfo s) CallFwUpld, [(callInfo s, CallFwUpld)])"

definition sensorCallFuncSetRate :: "Driver \<Rightarrow> Sensor \<Rightarrow> u32 \<Rightarrow> u64 \<Rightarrow> bool \<times> DriverLog" where
  "sensorCallFuncSetRate drv s r l =
     (drv (callInfo s) (CallSetRate r l), [(callInfo s, CallSetRate r l)])"

definition sensorCallFuncFlush :: "Driver \<Rightarrow> Sensor \<Rightarrow> bool \<times> DriverLog" where
  "sensorCallFuncFlush drv s = (drv (callInfo s) CallFlush, [(callInfo s, CallFlush)])"

definition sensorCallFuncTrigger :: "Driver \<Rightarrow> Sensor \<Rightarrow> bool \<times> DriverLog" where
  "sensorCallFuncTrigger drv s = (drv (callInfo s) CallTrigger, [(callInfo s, CallTrigger)])"

section \<open>The state machine's \<open>sensorReconfig\<close>\<close>

text \<open>
  The function works on the slot it is given a pointer to: the model takes the slot and
  returns it updated, with the binding calls it made.
\<close>

definition sensorReconfig :: "Driver \<Rightarrow> Sensor \<Rightarrow> u32 \<Rightarrow> u64 \<Rightarrow> Sensor \<times> DriverLog" where
  "sensorReconfig drv s newHwRate newHwLatency =
     (if currentRate s = newHwRate \<and> currentLatency s = newHwLatency then
        (s, [])
      else if currentRate s = SENSOR_RATE_OFF then
        (case sensorCallFuncPower drv s True of
           (ok, calls) \<Rightarrow>
             if ok then
               (s\<lparr>currentRate := SENSOR_RATE_POWERING_ON,
                  currentLatency := SENSOR_LATENCY_INVALID\<rparr>, calls)
             else (s, calls))
      else if currentRate s = SENSOR_RATE_POWERING_OFF then
        (s\<lparr>currentRate := SENSOR_RATE_POWERING_ON,
           currentLatency := SENSOR_LATENCY_INVALID\<rparr>, [])
      else if currentRate s = SENSOR_RATE_POWERING_ON
              \<or> currentRate s = SENSOR_RATE_FW_UPLOADING then
        (s, [])
      else if newHwRate > SENSOR_RATE_OFF \<or> newHwLatency < SENSOR_LATENCY_INVALID then
        (case sensorCallFuncSetRate drv s newHwRate newHwLatency of
           (_, calls) \<Rightarrow> (s, calls))
      else
        (case sensorCallFuncPower drv s False of
           (ok, calls) \<Rightarrow>
             if ok then
               (s\<lparr>currentRate := SENSOR_RATE_POWERING_OFF,
                  currentLatency := SENSOR_LATENCY_INVALID\<rparr>, calls)
             else (s, calls)))"

section \<open>The aggregator\<close>

text \<open>
  \<open>sensorCalcHwLatency\<close>: the loop over the slab's cells, with \<open>smallestLatency\<close> as the
  accumulator.
\<close>

primrec sensorCalcHwLatency_loop ::
  "u32 \<Rightarrow> SensorsClientRequest option list \<Rightarrow> u64 \<Rightarrow> u64" where
  "sensorCalcHwLatency_loop h [] smallestLatency = smallestLatency"
| "sensorCalcHwLatency_loop h (c # cs) smallestLatency =
     (case c of
        None \<Rightarrow> sensorCalcHwLatency_loop h cs smallestLatency
      | Some req \<Rightarrow>
          if req_handle req \<noteq> h then sensorCalcHwLatency_loop h cs smallestLatency
          else if smallestLatency > req_latency req then
            sensorCalcHwLatency_loop h cs (req_latency req)
          else sensorCalcHwLatency_loop h cs smallestLatency)"

definition sensorCalcHwLatency :: "SensorsClientRequest option list \<Rightarrow> Sensor \<Rightarrow> u64" where
  "sensorCalcHwLatency pool s = sensorCalcHwLatency_loop (handle s) pool SENSOR_LATENCY_INVALID"

text \<open>
  \<open>sensorCalcHwRate\<close>: the local variables of the request loop, the loop, and the scan of
  \<open>supportedRates\<close>. The scan reads the array until it meets a zero; reading past the
  end of an array that has none is undefined, and so is reading through a \<open>NULL\<close>
  \<open>si\<close>: both are the result \<open>None\<close>.
\<close>

record HwRateVars =
  haveUsers :: bool
  haveOnChange :: bool
  highestReq :: u32
  removedRate :: u32

primrec sensorCalcHwRate_loop ::
  "SensorsH \<Rightarrow> u32 \<Rightarrow> SensorsClientRequest option list \<Rightarrow> HwRateVars \<Rightarrow> HwRateVars" where
  "sensorCalcHwRate_loop k h [] v = v"
| "sensorCalcHwRate_loop k h (c # cs) v =
     (case c of
        None \<Rightarrow> sensorCalcHwRate_loop k h cs v
      | Some req \<Rightarrow>
          if req_handle req \<noteq> h then sensorCalcHwRate_loop k h cs v
          else if req_rate req = removedRate v then
            sensorCalcHwRate_loop k h cs (v\<lparr>removedRate := SENSOR_RATE_OFF\<rparr>)
          else if req_rate req = SENSOR_RATE_ONDEMAND k then
            sensorCalcHwRate_loop k h cs (v\<lparr>haveUsers := True\<rparr>)
          else if req_rate req = SENSOR_RATE_ONCHANGE k then
            sensorCalcHwRate_loop k h cs (v\<lparr>haveUsers := True, haveOnChange := True\<rparr>)
          else if highestReq v < req_rate req then
            sensorCalcHwRate_loop k h cs (v\<lparr>haveUsers := True, highestReq := req_rate req\<rparr>)
          else sensorCalcHwRate_loop k h cs (v\<lparr>haveUsers := True\<rparr>))"

primrec sensorCalcHwRate_scan :: "u32 list \<Rightarrow> u32 \<Rightarrow> u32 option" where
  "sensorCalcHwRate_scan [] highest = None"
| "sensorCalcHwRate_scan (r # rs) highest =
     (if r = 0 then Some SENSOR_RATE_IMPOSSIBLE
      else if r \<ge> highest then Some r
      else sensorCalcHwRate_scan rs highest)"

definition sensorCalcHwRate_init :: "SensorsH \<Rightarrow> u32 \<Rightarrow> u32 \<Rightarrow> HwRateVars" where
  "sensorCalcHwRate_init k extraReqedRate removed =
     \<lparr>haveUsers = (extraReqedRate \<noteq> 0),
      haveOnChange = (extraReqedRate = SENSOR_RATE_ONCHANGE k),
      highestReq =
        (if extraReqedRate \<noteq> 0 then
           (if extraReqedRate = SENSOR_RATE_ONDEMAND k \<or> extraReqedRate = SENSOR_RATE_ONCHANGE k
            then 0 else extraReqedRate)
         else 0),
      removedRate = removed\<rparr>"

definition sensorCalcHwRate ::
  "SensorsH \<Rightarrow> SensorsClientRequest option list \<Rightarrow> Sensor \<Rightarrow> u32 \<Rightarrow> u32 \<Rightarrow> u32 option" where
  "sensorCalcHwRate k pool s extraReqedRate removed =
     (let v = sensorCalcHwRate_loop k (handle s) pool
                (sensorCalcHwRate_init k extraReqedRate removed)
      in if highestReq v = 0 then
           (if \<not> haveUsers v then Some SENSOR_RATE_OFF
            else if haveOnChange v then Some (SENSOR_RATE_ONCHANGE k)
            else Some (SENSOR_RATE_ONDEMAND k))
         else
           (case si s of
              None \<Rightarrow> None
            | Some info \<Rightarrow> sensorCalcHwRate_scan (supportedRates info) (highestReq v)))"

section \<open>The request table\<close>

text \<open>
  Modelled from the spec: the slab allocator (\<open>slab.h\<close> is not part of the sources),
  of which the spec says \<open>alloc() \<rightarrow> ptr|null\<close>, \<open>free(ptr)\<close> and \<open>getNth(i) \<rightarrow> ptr|null\<close>
  with \<open>null\<close> for empty cells. Which free cell \<open>alloc\<close> hands out is not said, so the
  cell is an input of \<open>sensorAddRequestor\<close>: \<open>None\<close> for \<open>NULL\<close>. An allocator that
  behaves returns a free cell of the slab, and \<open>NULL\<close> only when there is none.
\<close>

definition slabAllocatorAlloc_ok :: "'a option list \<Rightarrow> nat option \<Rightarrow> bool" where
  "slabAllocatorAlloc_ok pool cell =
     (case cell of
        None \<Rightarrow> list_all (\<lambda>c. c \<noteq> None) pool
      | Some i \<Rightarrow> i < length pool \<and> pool ! i = None)"

definition sensorAddRequestor ::
  "nat option \<Rightarrow> SensorsClientRequest option list \<Rightarrow> u32 \<Rightarrow> u32 \<Rightarrow> u32 \<Rightarrow> u64
     \<Rightarrow> SensorsClientRequest option list option" where
  "sensorAddRequestor cell pool sensorHandle clientId r l =
     (case cell of
        None \<Rightarrow> None
      | Some i \<Rightarrow>
          Some (pool[i := Some \<lparr>req_handle = sensorHandle, req_clientId = clientId,
                                req_latency = l, req_rate = r\<rparr>]))"

primrec sensorGetCurRequestorRate ::
  "SensorsClientRequest option list \<Rightarrow> u32 \<Rightarrow> u32 \<Rightarrow> (u32 \<times> u64) option" where
  "sensorGetCurRequestorRate [] sensorHandle clientId = None"
| "sensorGetCurRequestorRate (c # cs) sensorHandle clientId =
     (case c of
        None \<Rightarrow> sensorGetCurRequestorRate cs sensorHandle clientId
      | Some req \<Rightarrow>
          if req_handle req = sensorHandle \<and> req_clientId req = clientId
          then Some (req_rate req, req_latency req)
          else sensorGetCurRequestorRate cs sensorHandle clientId)"

primrec sensorAmendRequestor ::
  "SensorsClientRequest option list \<Rightarrow> u32 \<Rightarrow> u32 \<Rightarrow> u32 \<Rightarrow> u64
     \<Rightarrow> SensorsClientRequest option list option" where
  "sensorAmendRequestor [] sensorHandle clientId newRate newLatency = None"
| "sensorAmendRequestor (c # cs) sensorHandle clientId newRate newLatency =
     (case c of
        None \<Rightarrow>
          map_option ((#) c) (sensorAmendRequestor cs sensorHandle clientId newRate newLatency)
      | Some req \<Rightarrow>
          if req_handle req = sensorHandle \<and> req_clientId req = clientId
          then Some (Some (req\<lparr>req_rate := newRate, req_latency := newLatency\<rparr>) # cs)
          else map_option ((#) c)
                 (sensorAmendRequestor cs sensorHandle clientId newRate newLatency))"

text \<open>
  \<open>sensorDeleteRequestor\<close> stores \<open>OFF\<close> and \<open>INVALID\<close> into the entry and frees its cell;
  a freed cell reads as \<open>NULL\<close> from then on.
\<close>

primrec sensorDeleteRequestor ::
  "SensorsClientRequest option list \<Rightarrow> u32 \<Rightarrow> u32 \<Rightarrow> SensorsClientRequest option list option" where
  "sensorDeleteRequestor [] sensorHandle clientId = None"
| "sensorDeleteRequestor (c # cs) sensorHandle clientId =
     (case c of
        None \<Rightarrow> map_option ((#) c) (sensorDeleteRequestor cs sensorHandle clientId)
      | Some req \<Rightarrow>
          if req_handle req = sensorHandle \<and> req_clientId req = clientId
          then Some (None # cs)
          else map_option ((#) c) (sensorDeleteRequestor cs sensorHandle clientId))"

section \<open>The public API\<close>

text \<open>
  Every operation takes the state and returns the new state with its result; \<open>None\<close> is
  undefined behaviour inside \<open>sensorCalcHwRate\<close>. \<open>drv\<close> answers the binding calls and
  \<open>cell\<close> is what \<open>slabAllocatorAlloc\<close> returns.
\<close>

definition sensorRequest ::
  "SensorsH \<Rightarrow> Driver \<Rightarrow> nat option \<Rightarrow> State \<Rightarrow> u32 \<Rightarrow> u32 \<Rightarrow> u32 \<Rightarrow> u64
     \<Rightarrow> (State \<times> bool) option" where
  "sensorRequest k drv cell st clientId sensorHandle r l =
     (case sensorFindByHandle (mSensors st) sensorHandle of
        None \<Rightarrow> Some (st, False)
      | Some i \<Rightarrow>
          (case sensorCalcHwRate k (mCliSensMatrix st) (mSensors st ! i) r 0 of
             None \<Rightarrow> None
           | Some newSensorRate \<Rightarrow>
               if newSensorRate = SENSOR_RATE_IMPOSSIBLE then Some (st, False)
               else
                 (case sensorAddRequestor cell (mCliSensMatrix st) sensorHandle clientId r l of
                    None \<Rightarrow> Some (st, False)
                  | Some pool \<Rightarrow>
                      (case sensorReconfig drv (mSensors st ! i) newSensorRate
                              (sensorCalcHwLatency pool (mSensors st ! i)) of
                         (s, calls) \<Rightarrow>
                           Some (st\<lparr>mSensors := (mSensors st)[i := s],
                                    mCliSensMatrix := pool,
                                    drvLog := drvLog st @ calls\<rparr>, True)))))"

definition sensorRequestRateChange ::
  "SensorsH \<Rightarrow> Driver \<Rightarrow> State \<Rightarrow> u32 \<Rightarrow> u32 \<Rightarrow> u32 \<Rightarrow> u64 \<Rightarrow> (State \<times> bool) option" where
  "sensorRequestRateChange k drv st clientId sensorHandle newRate newLatency =
     (case sensorFindByHandle (mSensors st) sensorHandle of
        None \<Rightarrow> Some (st, False)
      | Some i \<Rightarrow>
          (case sensorGetCurRequestorRate (mCliSensMatrix st) sensorHandle clientId of
             None \<Rightarrow> Some (st, False)
           | Some (oldRate, oldLatency) \<Rightarrow>
               (case sensorCalcHwRate k (mCliSensMatrix st) (mSensors st ! i) newRate oldRate of
                  None \<Rightarrow> None
                | Some newSensorRate \<Rightarrow>
                    if newSensorRate = SENSOR_RATE_IMPOSSIBLE then Some (st, False)
                    else
                      (case sensorAmendRequestor (mCliSensMatrix st) sensorHandle clientId
                              newRate newLatency of
                         None \<Rightarrow> Some (st, False)
                       | Some pool \<Rightarrow>
                           (case sensorReconfig drv (mSensors st ! i) newSensorRate
                                   (sensorCalcHwLatency pool (mSensors st ! i)) of
                              (s, calls) \<Rightarrow>
                                Some (st\<lparr>mSensors := (mSensors st)[i := s],
                                         mCliSensMatrix := pool,
                                         drvLog := drvLog st @ calls\<rparr>, True))))))"

definition sensorRelease ::
  "SensorsH \<Rightarrow> Driver \<Rightarrow> State \<Rightarrow> u32 \<Rightarrow> u32 \<Rightarrow> (State \<times> bool) option" where
  "sensorRelease k drv st clientId sensorHandle =
     (case sensorFindByHandle (mSensors st) sensorHandle of
        None \<Rightarrow> Some (st, False)
      | Some i \<Rightarrow>
          (case sensorDeleteRequestor (mCliSensMatrix st) sensorHandle clientId of
             None \<Rightarrow> Some (st, False)
           | Some pool \<Rightarrow>
               (case sensorCalcHwRate k pool (mSensors st ! i) 0 0 of
                  None \<Rightarrow> None
                | Some newSensorRate \<Rightarrow>
                    (case sensorReconfig drv (mSensors st ! i) newSensorRate
                            (sensorCalcHwLatency pool (mSensors st ! i)) of
                       (s, calls) \<Rightarrow>
                         Some (st\<lparr>mSensors := (mSensors st)[i := s],
                                  mCliSensMatrix := pool,
                                  drvLog := drvLog st @ calls\<rparr>, True)))))"

text \<open>
  \<open>sensorTriggerOndemand\<close> scans the slab for an entry of the client and the sensor, the
  scan \<open>sensorGetCurRequestorRate\<close> makes, and dispatches on the first one it finds.
\<close>

definition sensorTriggerOndemand :: "Driver \<Rightarrow> State \<Rightarrow> u32 \<Rightarrow> u32 \<Rightarrow> State \<times> bool" where
  "sensorTriggerOndemand drv st clientId sensorHandle =
     (case sensorFindByHandle (mSensors st) sensorHandle of
        None \<Rightarrow> (st, False)
      | Some i \<Rightarrow>
          (case sensorGetCurRequestorRate (mCliSensMatrix st) sensorHandle clientId of
             None \<Rightarrow> (st, False)
           | Some _ \<Rightarrow>
               (case sensorCallFuncTrigger drv (mSensors st ! i) of
                  (ok, calls) \<Rightarrow> (st\<lparr>drvLog := drvLog st @ calls\<rparr>, ok))))"

definition sensorFlush :: "Driver \<Rightarrow> State \<Rightarrow> u32 \<Rightarrow> State \<times> bool" where
  "sensorFlush drv st sensorHandle =
     (case sensorFindByHandle (mSensors st) sensorHandle of
        None \<Rightarrow> (st, False)
      | Some i \<Rightarrow>
          (case sensorCallFuncFlush drv (mSensors st ! i) of
             (ok, calls) \<Rightarrow> (st\<lparr>drvLog := drvLog st @ calls\<rparr>, ok)))"

definition sensorGetCurRate :: "State \<Rightarrow> u32 \<Rightarrow> u32" where
  "sensorGetCurRate st sensorHandle =
     (case sensorFindByHandle (mSensors st) sensorHandle of
        None \<Rightarrow> SENSOR_RATE_OFF
      | Some i \<Rightarrow> currentRate (mSensors st ! i))"

definition sensorGetCurLatency :: "State \<Rightarrow> u32 \<Rightarrow> u64" where
  "sensorGetCurLatency st sensorHandle =
     (case sensorFindByHandle (mSensors st) sensorHandle of
        None \<Rightarrow> SENSOR_LATENCY_INVALID
      | Some i \<Rightarrow> currentLatency (mSensors st ! i))"

section \<open>Registration\<close>

text \<open>
  The handle loop of \<open>sensorRegisterEx\<close>: \<open>atomicAdd\<close> hands out the counter's value and
  increments it (32-bit wrap-around), until the value is non-zero and no slot carries it.
  The result is the handle and the counter after the loop; \<open>None\<close> is a loop that never
  ends.
\<close>

partial_function (option) sensorRegisterEx_grab :: "Sensor list \<Rightarrow> u32 \<Rightarrow> (u32 \<times> u32) option" where
  "sensorRegisterEx_grab sensors next =
     (if next = 0 \<or> sensorFindByHandle sensors next \<noteq> None
      then sensorRegisterEx_grab sensors (next + 1)
      else Some (next, next + 1))"

text \<open>
  Modelled from the spec: the atomic bitset (\<open>atomicBitset.h\<close> is not part of the
  sources), \<open>findClearAndSet \<rightarrow> index|-1\<close> and \<open>clearBit(index)\<close>. The index found is an
  input of \<open>sensorRegisterEx\<close> (\<open>None\<close> for a negative result); a bitset that behaves
  returns the index of a clear bit, and a negative result only when there is none.
\<close>

definition atomicBitsetFindClearAndSet_ok :: "bool list \<Rightarrow> nat option \<Rightarrow> bool" where
  "atomicBitsetFindClearAndSet_ok bits found =
     (case found of
        None \<Rightarrow> list_all (\<lambda>b. b) bits
      | Some i \<Rightarrow> i < length bits \<and> \<not> bits ! i)"

definition sensorRegisterEx ::
  "State \<Rightarrow> SensorInfo \<Rightarrow> TaggedPtr \<Rightarrow> nat option \<Rightarrow> (State \<times> u32) option" where
  "sensorRegisterEx st info ci found =
     (case found of
        None \<Rightarrow> Some (st, 0)
      | Some idx \<Rightarrow>
          (case sensorRegisterEx_grab (mSensors st) (mNextSensorHandle st) of
             None \<Rightarrow> None
           | Some (h, next) \<Rightarrow>
               Some (st\<lparr>mSensorsUsed := (mSensorsUsed st)[idx := True],
                        mNextSensorHandle := next,
                        mSensors := (mSensors st)[idx :=
                          \<lparr>si = Some info, handle = h,
                           currentLatency = SENSOR_LATENCY_INVALID,
                           currentRate = SENSOR_RATE_OFF, callInfo = ci\<rparr>]\<rparr>, h)))"

definition sensorUnregister :: "State \<Rightarrow> u32 \<Rightarrow> State \<times> bool" where
  "sensorUnregister st h =
     (case sensorFindByHandle (mSensors st) h of
        None \<Rightarrow> (st, False)
      | Some i \<Rightarrow>
          (st\<lparr>mSensors := (mSensors st)[i := (mSensors st ! i)\<lparr>handle := 0\<rparr>],
              mSensorsUsed := (mSensorsUsed st)[i := False]\<rparr>, True))"

section \<open>The handlers of the internal events\<close>

definition sensorInternalFwStateChanged ::
  "SensorsH \<Rightarrow> Driver \<Rightarrow> State \<Rightarrow> SensorsInternalEvent \<Rightarrow> State option" where
  "sensorInternalFwStateChanged k drv st evt =
     (case sensorFindByHandle (mSensors st) (evt_handle evt) of
        None \<Rightarrow> Some st
      | Some i \<Rightarrow>
          (let s = mSensors st ! i in
           if evt_value1 evt = 0 then
             (let s1 = s\<lparr>currentRate := SENSOR_RATE_POWERING_OFF,
                          currentLatency := SENSOR_LATENCY_INVALID\<rparr>
              in case sensorCallFuncPower drv s1 False of
                   (_, calls) \<Rightarrow>
                     Some (st\<lparr>mSensors := (mSensors st)[i := s1],
                              drvLog := drvLog st @ calls\<rparr>))
           else if currentRate s = SENSOR_RATE_FW_UPLOADING then
             (let s1 = s\<lparr>currentRate := evt_value1 evt, currentLatency := evt_value2 evt\<rparr>
              in case sensorCalcHwRate k (mCliSensMatrix st) s1 0 0 of
                   None \<Rightarrow> None
                 | Some newHwRate \<Rightarrow>
                     (case sensorReconfig drv s1 newHwRate
                             (sensorCalcHwLatency (mCliSensMatrix st) s1) of
                        (s2, calls) \<Rightarrow>
                          Some (st\<lparr>mSensors := (mSensors st)[i := s2],
                                   drvLog := drvLog st @ calls\<rparr>)))
           else if currentRate s = SENSOR_RATE_POWERING_OFF then
             (case sensorCallFuncPower drv s False of
                (_, calls) \<Rightarrow> Some (st\<lparr>drvLog := drvLog st @ calls\<rparr>))
           else Some st))"

definition sensorInternalPowerStateChanged ::
  "Driver \<Rightarrow> State \<Rightarrow> SensorsInternalEvent \<Rightarrow> State" where
  "sensorInternalPowerStateChanged drv st evt =
     (case sensorFindByHandle (mSensors st) (evt_handle evt) of
        None \<Rightarrow> st
      | Some i \<Rightarrow>
          (let s = mSensors st ! i in
           if currentRate s = SENSOR_RATE_POWERING_ON \<and> evt_value1 evt \<noteq> 0 then
             (let s1 = s\<lparr>currentRate := SENSOR_RATE_FW_UPLOADING,
                          currentLatency := SENSOR_LATENCY_INVALID\<rparr>
              in case sensorCallFuncFwUpld drv s1 of
                   (_, calls) \<Rightarrow>
                     st\<lparr>mSensors := (mSensors st)[i := s1], drvLog := drvLog st @ calls\<rparr>)
           else if currentRate s = SENSOR_RATE_POWERING_OFF \<and> evt_value1 evt = 0 then
             st\<lparr>mSensors := (mSensors st)[i :=
                  s\<lparr>currentRate := SENSOR_RATE_OFF,
                    currentLatency := SENSOR_LATENCY_INVALID\<rparr>]\<rparr>
           else if currentRate s = SENSOR_RATE_POWERING_ON \<and> evt_value1 evt = 0 then
             (case sensorCallFuncPower drv s True of
                (_, calls) \<Rightarrow> st\<lparr>drvLog := drvLog st @ calls\<rparr>)
           else if currentRate s = SENSOR_RATE_POWERING_OFF \<and> evt_value1 evt \<noteq> 0 then
             (case sensorCallFuncPower drv s False of
                (_, calls) \<Rightarrow> st\<lparr>drvLog := drvLog st @ calls\<rparr>)
           else st))"

definition sensorInternalRateChanged :: "State \<Rightarrow> SensorsInternalEvent \<Rightarrow> State" where
  "sensorInternalRateChanged st evt =
     (case sensorFindByHandle (mSensors st) (evt_handle evt) of
        None \<Rightarrow> st
      | Some i \<Rightarrow>
          st\<lparr>mSensors := (mSensors st)[i :=
               (mSensors st ! i)\<lparr>currentRate := evt_value1 evt,
                                 currentLatency := evt_value2 evt\<rparr>]\<rparr>)"

section \<open>Notions the properties are stated with\<close>

text \<open>
  The aggregation as the specification words it. \<open>liveRequests\<close> lists the live
  requests of a sensor in pool order and \<open>liveRates\<close> their rates. The contributions are
  the extra rate, when there is one, and the rates of the live requests with one
  instance of the removed rate subtracted, when there is a removed rate. There are
  users when some contribution is not \<open>OFF\<close>. A concrete rate is one that is neither
  \<open>OFF\<close> nor \<open>ON-DEMAND\<close> nor \<open>ON-CHANGE\<close>.
\<close>

primrec liveRequests ::
  "u32 \<Rightarrow> SensorsClientRequest option list \<Rightarrow> SensorsClientRequest list" where
  "liveRequests h [] = []"
| "liveRequests h (c # cs) =
     (case c of
        None \<Rightarrow> liveRequests h cs
      | Some req \<Rightarrow> if req_handle req = h then req # liveRequests h cs else liveRequests h cs)"

definition liveRates :: "u32 \<Rightarrow> SensorsClientRequest option list \<Rightarrow> u32 list" where
  "liveRates h pool = map req_rate (liveRequests h pool)"

definition contributedRates ::
  "SensorsClientRequest option list \<Rightarrow> Sensor \<Rightarrow> u32 \<Rightarrow> u32 \<Rightarrow> u32 list" where
  "contributedRates pool s extraRate removed =
     (if extraRate = SENSOR_RATE_OFF then [] else [extraRate])
       @ (if removed = SENSOR_RATE_OFF then liveRates (handle s) pool
          else remove1 removed (liveRates (handle s) pool))"

definition concreteRates :: "SensorsH \<Rightarrow> u32 list \<Rightarrow> u32 list" where
  "concreteRates k rs =
     filter (\<lambda>r. r \<noteq> SENSOR_RATE_OFF \<and> r \<noteq> SENSOR_RATE_ONDEMAND k \<and> r \<noteq> SENSOR_RATE_ONCHANGE k) rs"

definition firstSupportedRate :: "u32 list \<Rightarrow> u32 \<Rightarrow> u32" where
  "firstSupportedRate rates m =
     (case find (\<lambda>r. r \<ge> m) (takeWhile (\<lambda>r. r \<noteq> 0) rates) of
        None \<Rightarrow> SENSOR_RATE_IMPOSSIBLE
      | Some r \<Rightarrow> r)"

definition calcHwRate_spec ::
  "SensorsH \<Rightarrow> SensorsClientRequest option list \<Rightarrow> Sensor \<Rightarrow> SensorInfo \<Rightarrow> u32 \<Rightarrow> u32 \<Rightarrow> u32" where
  "calcHwRate_spec k pool s info extraRate removed =
     (let contributed = contributedRates pool s extraRate removed;
          concrete = concreteRates k contributed
      in if concrete = [] then
           (if filter (\<lambda>r. r \<noteq> SENSOR_RATE_OFF) contributed = [] then SENSOR_RATE_OFF
            else if SENSOR_RATE_ONCHANGE k \<in> set contributed then SENSOR_RATE_ONCHANGE k
            else SENSOR_RATE_ONDEMAND k)
         else firstSupportedRate (supportedRates info) (Max (set concrete)))"

text \<open>
  What one request of rate \<open>r\<close>, other than \<open>OFF\<close>, adds to the three aggregates in the
  specification's words: it is a user; it is an \<open>ON-CHANGE\<close> request when \<open>r\<close> is
  \<open>ON-CHANGE\<close>; and it raises the highest request to \<open>r\<close> when \<open>r\<close> is a concrete rate
  above it.
\<close>

definition contributeRate :: "SensorsH \<Rightarrow> u32 \<Rightarrow> HwRateVars \<Rightarrow> HwRateVars" where
  "contributeRate k r v =
     v\<lparr>haveUsers := True,
       haveOnChange := (haveOnChange v \<or> r = SENSOR_RATE_ONCHANGE k),
       highestReq :=
         (if r = SENSOR_RATE_ONDEMAND k \<or> r = SENSOR_RATE_ONCHANGE k then highestReq v
          else max (highestReq v) r)\<rparr>"

text \<open>
  The control flow of the code's request loop on the rates it meets, as the proofs
  use it (this is the loop, not the specification): the loop skips the first rate equal
  to the rate to remove and from then on removes \<open>OFF\<close>, so that it counts a request of
  rate \<open>OFF\<close> that lies ahead of the skipped one and skips those behind it.
\<close>

primrec countedRates :: "u32 \<Rightarrow> u32 list \<Rightarrow> u32 list" where
  "countedRates removed [] = []"
| "countedRates removed (r # rs) =
     (if r = removed then countedRates SENSOR_RATE_OFF rs else r # countedRates removed rs)"

text \<open>
  A step from one state to another changes \<open>currentRate\<close> only to allowed values when
  the slots correspond one to one and each slot keeps its \<open>currentRate\<close> or has one of
  the listed values.
\<close>

definition currentRatesStep :: "u32 list \<Rightarrow> State \<Rightarrow> State \<Rightarrow> bool" where
  "currentRatesStep allowed st st' =
     list_all2 (\<lambda>s s'. currentRate s' = currentRate s \<or> currentRate s' \<in> set allowed)
       (mSensors st) (mSensors st')"

text \<open>
  The aggregator's two outputs for the sensor a handle resolves to, and the sequence
  \<open>sensorRelease\<close> then \<open>sensorRequest\<close>, which succeeds when both calls do.
\<close>

definition aggregatorOutputs :: "SensorsH \<Rightarrow> State \<Rightarrow> u32 \<Rightarrow> (u32 option \<times> u64) option" where
  "aggregatorOutputs k st sensorHandle =
     (case sensorFindByHandle (mSensors st) sensorHandle of
        None \<Rightarrow> None
      | Some i \<Rightarrow>
          Some (sensorCalcHwRate k (mCliSensMatrix st) (mSensors st ! i) 0 0,
                sensorCalcHwLatency (mCliSensMatrix st) (mSensors st ! i)))"

definition releaseThenRequest ::
  "SensorsH \<Rightarrow> Driver \<Rightarrow> Driver \<Rightarrow> nat option \<Rightarrow> State \<Rightarrow> u32 \<Rightarrow> u32 \<Rightarrow> u32 \<Rightarrow> u64
     \<Rightarrow> (State \<times> bool) option" where
  "releaseThenRequest k drv1 drv2 cell st clientId sensorHandle r l =
     (case sensorRelease k drv1 st clientId sensorHandle of
        None \<Rightarrow> None
      | Some (st1, released) \<Rightarrow>
          (case sensorRequest k drv2 cell st1 clientId sensorHandle r l of
             None \<Rightarrow> None
           | Some (st2, requested) \<Rightarrow> Some (st2, released \<and> requested)))"

text \<open>
  The values the specification allows in \<open>currentRate\<close> of a sensor: the four state
  sentinels, the two pseudo-rates and the entries of the sensor's \<open>supportedRates\<close>.
\<close>

definition sensorRateOk :: "SensorsH \<Rightarrow> Sensor \<Rightarrow> u32 \<Rightarrow> bool" where
  "sensorRateOk k s r =
     (r = SENSOR_RATE_OFF \<or> r = SENSOR_RATE_POWERING_ON \<or> r = SENSOR_RATE_FW_UPLOADING
      \<or> r = SENSOR_RATE_POWERING_OFF \<or> r = SENSOR_RATE_ONDEMAND k \<or> r = SENSOR_RATE_ONCHANGE k
      \<or> (case si s of None \<Rightarrow> False | Some info \<Rightarrow> r \<in> set (supportedRates info)))"

text \<open>
  A slot is in order when it is not live (its handle is zero) or its \<open>currentRate\<close> is an
  allowed value; the state is in order when every slot is.
\<close>

definition slotOk :: "SensorsH \<Rightarrow> Sensor \<Rightarrow> bool" where
  "slotOk k s = (handle s = 0 \<or> sensorRateOk k s (currentRate s))"

definition liveSensorsOk :: "SensorsH \<Rightarrow> State \<Rightarrow> bool" where
  "liveSensorsOk k st = list_all (slotOk k) (mSensors st)"

text \<open>
  The states the file can be in: \<open>sensorsInit\<close>, then any sequence of API calls and
  handler runs, with any answers of the driver. \<open>P\<close> says which rate payloads the
  rate-changed and firmware-state-changed events may carry for the slot they resolve to.
  The getters and \<open>sensorFind\<close> read only, and \<open>sensorSignalInternalEvt\<close> touches only the
  event pool and the scheduler's queue: they are not steps. The handlers run with any
  event, which covers every event \<open>sensorSignalInternalEvt\<close> can have queued.
\<close>

definition eventPayloadOk :: "(Sensor \<Rightarrow> u32 \<Rightarrow> bool) \<Rightarrow> State \<Rightarrow> SensorsInternalEvent \<Rightarrow> bool" where
  "eventPayloadOk P st evt =
     (case sensorFindByHandle (mSensors st) (evt_handle evt) of
        None \<Rightarrow> True
      | Some i \<Rightarrow> P (mSensors st ! i) (evt_value1 evt))"

inductive reachable :: "SensorsH \<Rightarrow> (Sensor \<Rightarrow> u32 \<Rightarrow> bool) \<Rightarrow> State \<Rightarrow> bool"
  for k :: SensorsH and P :: "Sensor \<Rightarrow> u32 \<Rightarrow> bool" where
  r_init: "reachable k P (sensorsInit k)"
| r_register:
    "reachable k P st \<Longrightarrow> atomicBitsetFindClearAndSet_ok (mSensorsUsed st) found \<Longrightarrow>
     sensorRegisterEx st info ci found = Some (st', h) \<Longrightarrow> reachable k P st'"
| r_unregister:
    "reachable k P st \<Longrightarrow> sensorUnregister st h = (st', b) \<Longrightarrow> reachable k P st'"
| r_request:
    "reachable k P st \<Longrightarrow> slabAllocatorAlloc_ok (mCliSensMatrix st) cell \<Longrightarrow>
     sensorRequest k drv cell st c h r l = Some (st', b) \<Longrightarrow> reachable k P st'"
| r_rateChange:
    "reachable k P st \<Longrightarrow> sensorRequestRateChange k drv st c h r l = Some (st', b) \<Longrightarrow>
     reachable k P st'"
| r_release:
    "reachable k P st \<Longrightarrow> sensorRelease k drv st c h = Some (st', b) \<Longrightarrow> reachable k P st'"
| r_trigger:
    "reachable k P st \<Longrightarrow> sensorTriggerOndemand drv st c h = (st', b) \<Longrightarrow> reachable k P st'"
| r_flush:
    "reachable k P st \<Longrightarrow> sensorFlush drv st h = (st', b) \<Longrightarrow> reachable k P st'"
| r_powerEvt:
    "reachable k P st \<Longrightarrow> reachable k P (sensorInternalPowerStateChanged drv st evt)"
| r_fwEvt:
    "reachable k P st \<Longrightarrow> eventPayloadOk P st evt \<Longrightarrow>
     sensorInternalFwStateChanged k drv st evt = Some st' \<Longrightarrow> reachable k P st'"
| r_rateEvt:
    "reachable k P st \<Longrightarrow> eventPayloadOk P st evt \<Longrightarrow>
     reachable k P (sensorInternalRateChanged st evt)"

text \<open>
  A configuration and a sensor for the concrete evaluations: the values of the header's
  macros are examples, and \<open>supportedRates\<close> is \<open>{5, 10, 0}\<close>.
\<close>

definition exampleH :: SensorsH where
  "exampleH = \<lparr>SENSOR_RATE_ONDEMAND = 0xFFFFFF00, SENSOR_RATE_ONCHANGE = 0xFFFFFF01,
               MAX_REGISTERED_SENSORS = 2\<rparr>"

definition exampleInfo :: SensorInfo where
  "exampleInfo = \<lparr>sensorType = 1, supportedRates = [5, 10, 0]\<rparr>"

definition exampleSensor :: "u32 \<Rightarrow> u64 \<Rightarrow> Sensor" where
  "exampleSensor r l =
     \<lparr>si = Some exampleInfo, handle = 1, currentLatency = l, currentRate = r, callInfo = 0\<rparr>"

definition exampleReq :: "u32 \<Rightarrow> u32 \<Rightarrow> SensorsClientRequest" where
  "exampleReq c r =
     \<lparr>req_handle = 1, req_clientId = c, req_latency = SENSOR_LATENCY_INVALID, req_rate = r\<rparr>"

definition exampleState :: "Sensor \<Rightarrow> SensorsClientRequest option list \<Rightarrow> State" where
  "exampleState s cells =
     \<lparr>mSensors = [s, zeroSensor], mSensorsUsed = [True, False],
      mCliSensMatrix = cells @ replicate (MAX_CLI_SENS_MATRIX_SZ - length cells) None,
      mNextSensorHandle = 2, drvLog = []\<rparr>"

section \<open>Auxiliary facts\<close>

lemmas sentinels = SENSOR_RATE_OFF_def SENSOR_RATE_POWERING_ON_def SENSOR_RATE_POWERING_OFF_def
  SENSOR_RATE_FW_UPLOADING_def SENSOR_RATE_IMPOSSIBLE_def SENSOR_LATENCY_INVALID_def

lemmas examples = exampleH_def exampleInfo_def exampleSensor_def exampleReq_def
  exampleState_def zeroSensor_def MAX_CLI_SENS_MATRIX_SZ_def

subsection \<open>Loops over free cells\<close>

lemma rateLoop_free [simp]: "sensorCalcHwRate_loop k h (replicate n None) v = v"
  by (induction n) auto

lemma latencyLoop_free [simp]: "sensorCalcHwLatency_loop h (replicate n None) a = a"
  by (induction n) auto

lemma getCur_free [simp]: "sensorGetCurRequestorRate (replicate n None) h c = None"
  by (induction n) auto

lemma amend_free [simp]: "sensorAmendRequestor (replicate n None) h c r l = None"
  by (induction n) auto

lemma delete_free [simp]: "sensorDeleteRequestor (replicate n None) h c = None"
  by (induction n) auto

subsection \<open>The request loop in terms of the counted rates\<close>

lemma loop_removedRate:
  "removedRate (sensorCalcHwRate_loop k h pool v) =
     (if removedRate v \<in> set (liveRates h pool) then SENSOR_RATE_OFF else removedRate v)"
  by (induction pool arbitrary: v) (auto simp: liveRates_def sentinels split: option.splits)

lemma loop_haveUsers:
  "haveUsers (sensorCalcHwRate_loop k h pool v) =
     (haveUsers v \<or> countedRates (removedRate v) (liveRates h pool) \<noteq> [])"
  by (induction pool arbitrary: v) (auto simp: liveRates_def split: option.splits)

lemma loop_haveOnChange:
  "SENSOR_RATE_ONDEMAND k \<noteq> SENSOR_RATE_ONCHANGE k \<Longrightarrow>
   haveOnChange (sensorCalcHwRate_loop k h pool v) =
     (haveOnChange v \<or> SENSOR_RATE_ONCHANGE k \<in> set (countedRates (removedRate v) (liveRates h pool)))"
  by (induction pool arbitrary: v) (auto simp: liveRates_def split: option.splits)

lemma loop_highestReq:
  "highestReq (sensorCalcHwRate_loop k h pool v) =
     fold max (concreteRates k (countedRates (removedRate v) (liveRates h pool))) (highestReq v)"
proof (induction pool arbitrary: v)
  case Nil
  then show ?case by (simp add: liveRates_def concreteRates_def)
next
  case (Cons c cs)
  show ?case
  proof (cases c)
    case None
    then show ?thesis using Cons by (simp add: liveRates_def)
  next
    case (Some req)
    then show ?thesis
      using Cons [of "v\<lparr>removedRate := SENSOR_RATE_OFF\<rparr>"]
            Cons [of "v\<lparr>haveUsers := True\<rparr>"]
            Cons [of "v\<lparr>haveUsers := True, haveOnChange := True\<rparr>"]
            Cons [of "v\<lparr>haveUsers := True, highestReq := req_rate req\<rparr>"]
            Cons [of v]
      by (auto simp: liveRates_def concreteRates_def max_def sentinels)
  qed
qed


lemma scan_firstSupportedRate:
  "0 \<in> set rates \<Longrightarrow> sensorCalcHwRate_scan rates m = Some (firstSupportedRate rates m)"
  by (induction rates) (auto simp: firstSupportedRate_def)

lemma fold_max_word_eq_0:
  "(fold max xs (a::u32) = 0) = (a = 0 \<and> (\<forall>x \<in> set xs. x = 0))"
proof (induction xs arbitrary: a)
  case Nil
  then show ?case by simp
next
  case (Cons x xs)
  have "(max x a = 0) = (x = 0 \<and> a = 0)"
    by (metis max.absorb1 max.absorb2 word_coorder.extremum nle_le)
  with Cons show ?case by auto
qed

lemma fold_max_Max:
  "fold max xs (a::u32) = Max (insert a (set xs))"
  by (metis Max.set_eq_fold list.simps(15))

lemma concreteRates_nonzero: "x \<in> set (concreteRates k rs) \<Longrightarrow> x \<noteq> 0"
  by (simp add: concreteRates_def sentinels)

lemma liveRequests_append:
  "liveRequests h (xs @ ys) = liveRequests h xs @ liveRequests h ys"
  by (induction xs) (auto split: option.splits)

lemma liveRates_append: "liveRates h (xs @ ys) = liveRates h xs @ liveRates h ys"
  by (simp add: liveRates_def liveRequests_append)

lemma rateLoop_append:
  "sensorCalcHwRate_loop k h (xs @ ys) v =
     sensorCalcHwRate_loop k h ys (sensorCalcHwRate_loop k h xs v)"
  by (induction xs arbitrary: v) (auto split: option.splits)

lemma first_live_rate:
  "r \<in> set (liveRates h pool) \<Longrightarrow>
   \<exists>pre q post. pool = pre @ Some q # post \<and> req_handle q = h \<and> req_rate q = r
     \<and> r \<notin> set (liveRates h pre)"
proof (induction pool)
  case Nil
  then show ?case by (simp add: liveRates_def)
next
  case (Cons c cs)
  show ?case
  proof (cases "\<exists>q. c = Some q \<and> req_handle q = h \<and> req_rate q = r")
    case True
    then obtain q where "c = Some q" "req_handle q = h" "req_rate q = r" by blast
    then have "c # cs = [] @ Some q # cs \<and> req_handle q = h \<and> req_rate q = r
                 \<and> r \<notin> set (liveRates h [])"
      by (simp add: liveRates_def)
    then show ?thesis by blast
  next
    case False
    with Cons.prems have "r \<in> set (liveRates h cs)"
      by (auto simp: liveRates_def split: option.splits if_splits)
    from Cons.IH [OF this] obtain pre q post where
      p: "cs = pre @ Some q # post" "req_handle q = h" "req_rate q = r"
         "r \<notin> set (liveRates h pre)" by blast
    from False p(4) have "r \<notin> set (liveRates h (c # pre))"
      by (auto simp: liveRates_def split: option.splits if_splits)
    with p have "c # cs = (c # pre) @ Some q # post \<and> req_handle q = h \<and> req_rate q = r
                   \<and> r \<notin> set (liveRates h (c # pre))" by simp
    then show ?thesis by blast
  qed
qed

lemma countedRates_OFF: "countedRates SENSOR_RATE_OFF rs = filter (\<lambda>r. r \<noteq> SENSOR_RATE_OFF) rs"
  by (induction rs) auto

lemma fold_max_ge: "x \<in> set xs \<Longrightarrow> x \<le> fold max xs (a::u32)"
  by (simp add: fold_max_Max)

subsection \<open>Slots and the registry lookup\<close>

lemma find_Some:
  "sensorFindByHandle xs h = Some i \<Longrightarrow> i < length xs \<and> handle (xs ! i) = h"
  by (induction xs arbitrary: i) (auto split: if_splits)

lemma find_update_same:
  "sensorFindByHandle xs h = Some i \<Longrightarrow> handle x = h \<Longrightarrow>
   sensorFindByHandle (xs[i := x]) h = Some i"
  by (induction xs arbitrary: i) (auto split: if_splits)

lemma reconfig_keeps:
  "handle (fst (sensorReconfig drv s r l)) = handle s"
  "si (fst (sensorReconfig drv s r l)) = si s"
  "callInfo (fst (sensorReconfig drv s r l)) = callInfo s"
  by (simp_all add: sensorReconfig_def sensorCallFuncPower_def sensorCallFuncSetRate_def)

subsection \<open>Definedness of the rate calculation\<close>

lemma scan_mono:
  "sensorCalcHwRate_scan rates m = Some x \<Longrightarrow> m' \<le> m \<Longrightarrow>
   \<exists>y. sensorCalcHwRate_scan rates m' = Some y"
  by (induction rates) (auto split: if_splits)

lemma fold_max_mono: "(a::u32) \<le> b \<Longrightarrow> fold max xs a \<le> fold max xs b"
proof (induction xs arbitrary: a b)
  case Nil
  then show ?case by simp
next
  case (Cons x xs)
  from Cons.prems have "max x a \<le> max x b" by (simp add: max.coboundedI2)
  from Cons.IH [OF this] show ?case by simp
qed

lemma calc_without_extra_defined:
  assumes "sensorCalcHwRate k pool s extraRate 0 = Some x"
    and "handle s' = handle s" and "si s' = si s"
  shows "\<exists>y. sensorCalcHwRate k pool s' 0 0 = Some y"
proof -
  let ?C = "concreteRates k (countedRates 0 (liveRates (handle s) pool))"
  let ?v = "sensorCalcHwRate_loop k (handle s) pool (sensorCalcHwRate_init k extraRate 0)"
  let ?w = "sensorCalcHwRate_loop k (handle s) pool (sensorCalcHwRate_init k 0 0)"
  have hv: "highestReq ?v = fold max ?C (highestReq (sensorCalcHwRate_init k extraRate 0))"
    by (simp add: loop_highestReq sensorCalcHwRate_init_def)
  have hw: "highestReq ?w = fold max ?C 0"
    by (simp add: loop_highestReq sensorCalcHwRate_init_def)
  have le: "highestReq ?w \<le> highestReq ?v"
    unfolding hv hw by (rule fold_max_mono) simp
  show ?thesis
  proof (cases "highestReq ?w = 0")
    case True
    then show ?thesis using assms(2) by (simp add: sensorCalcHwRate_def Let_def)
  next
    case False
    with le have nz: "highestReq ?v \<noteq> 0" by auto
    with assms(1) obtain info where info: "si s = Some info"
      and scan: "sensorCalcHwRate_scan (supportedRates info) (highestReq ?v) = Some x"
      by (auto simp: sensorCalcHwRate_def Let_def split: option.splits)
    from scan_mono [OF scan le] obtain y where
      "sensorCalcHwRate_scan (supportedRates info) (highestReq ?w) = Some y" by blast
    with False info assms(2,3) show ?thesis
      by (simp add: sensorCalcHwRate_def Let_def)
  qed
qed

subsection \<open>Adding and deleting an entry\<close>

lemma delete_after_add:
  "j < length pool \<Longrightarrow> pool ! j = None \<Longrightarrow> sensorGetCurRequestorRate pool h c = None \<Longrightarrow>
   sensorDeleteRequestor
     (pool[j := Some \<lparr>req_handle = h, req_clientId = c, req_latency = l, req_rate = r\<rparr>]) h c
   = Some pool"
proof (induction pool arbitrary: j)
  case Nil
  then show ?case by simp
next
  case (Cons x xs)
  show ?case
  proof (cases j)
    case 0
    with Cons.prems show ?thesis by simp
  next
    case (Suc j')
    with Cons.prems have "sensorDeleteRequestor
        (xs[j' := Some \<lparr>req_handle = h, req_clientId = c, req_latency = l, req_rate = r\<rparr>]) h c
        = Some xs"
      by (intro Cons.IH) (auto split: option.splits if_splits)
    with Suc Cons.prems show ?thesis
      by (auto split: option.splits if_splits)
  qed
qed

subsection \<open>The aggregates as functions of the live requests\<close>

lemma calc_cong:
  "handle s' = handle s \<Longrightarrow> si s' = si s \<Longrightarrow>
   sensorCalcHwRate k pool s' e r = sensorCalcHwRate k pool s e r"
  by (simp add: sensorCalcHwRate_def Let_def)

lemma latency_cong:
  "handle s' = handle s \<Longrightarrow> sensorCalcHwLatency pool s' = sensorCalcHwLatency pool s"
  by (simp add: sensorCalcHwLatency_def)

lemma calc_defined:
  "si s = Some info \<Longrightarrow> 0 \<in> set (supportedRates info) \<Longrightarrow>
   \<exists>x. sensorCalcHwRate k pool s e r = Some x"
  by (simp add: sensorCalcHwRate_def Let_def scan_firstSupportedRate)

lemma loop_haveOnChange_general:
  "haveOnChange (sensorCalcHwRate_loop k h pool v) =
     (haveOnChange v
      \<or> (\<exists>x \<in> set (countedRates (removedRate v) (liveRates h pool)).
            x \<noteq> SENSOR_RATE_ONDEMAND k \<and> x = SENSOR_RATE_ONCHANGE k))"
  by (induction pool arbitrary: v) (auto simp: liveRates_def split: option.splits)

lemma countedRates_0: "countedRates 0 rs = filter (\<lambda>r. r \<noteq> 0) rs"
  using countedRates_OFF [of rs] by (simp add: sentinels)

lemma loop_zero_set:
  assumes "removedRate v = 0"
    and "set (liveRates h p1) = set (liveRates h p2)"
  shows "sensorCalcHwRate_loop k h p1 v = sensorCalcHwRate_loop k h p2 v"
proof (rule HwRateVars.equality)
  show "haveUsers (sensorCalcHwRate_loop k h p1 v) = haveUsers (sensorCalcHwRate_loop k h p2 v)"
    using assms by (simp add: loop_haveUsers countedRates_0 filter_empty_conv)
  show "haveOnChange (sensorCalcHwRate_loop k h p1 v)
          = haveOnChange (sensorCalcHwRate_loop k h p2 v)"
    using assms by (simp add: loop_haveOnChange_general countedRates_0)
  show "highestReq (sensorCalcHwRate_loop k h p1 v) = highestReq (sensorCalcHwRate_loop k h p2 v)"
    using assms
    by (simp add: loop_highestReq countedRates_0 fold_max_Max concreteRates_def)
  show "removedRate (sensorCalcHwRate_loop k h p1 v)
          = removedRate (sensorCalcHwRate_loop k h p2 v)"
    using assms by (simp add: loop_removedRate sentinels)
qed simp

lemma latencyLoop_fold:
  "sensorCalcHwLatency_loop h pool a = fold min (map req_latency (liveRequests h pool)) a"
  by (induction pool arbitrary: a) (auto simp: min_def split: option.splits)

lemma fold_min_Min: "fold min xs (a::u64) = Min (insert a (set xs))"
  by (metis Min.set_eq_fold list.simps(15))

lemma latency_set:
  "set (liveRequests h p1) = set (liveRequests h p2) \<Longrightarrow>
   sensorCalcHwLatency_loop h p1 a = sensorCalcHwLatency_loop h p2 a"
  by (simp add: latencyLoop_fold fold_min_Min)

subsection \<open>Updating one cell of the table\<close>

lemma liveRequests_update:
  "j < length pool \<Longrightarrow>
   mset (liveRequests h (pool[j := c])) + mset (liveRequests h [pool ! j])
     = mset (liveRequests h pool) + mset (liveRequests h [c])"
proof (induction pool arbitrary: j)
  case Nil
  then show ?case by simp
next
  case (Cons x xs)
  show ?case
  proof (cases j)
    case 0
    then show ?thesis by (auto split: option.splits)
  next
    case (Suc j')
    with Cons.prems have "j' < length xs" by simp
    from Cons.IH [OF this] Suc show ?thesis
      by (auto split: option.splits)
  qed
qed

lemma locate_request:
  "sensorGetCurRequestorRate pool h c = Some (r0, l0) \<Longrightarrow>
   \<exists>j q. j < length pool \<and> pool ! j = Some q \<and> req_handle q = h \<and> req_clientId q = c
     \<and> req_rate q = r0 \<and> req_latency q = l0
     \<and> sensorAmendRequestor pool h c r l
         = Some (pool[j := Some (q\<lparr>req_rate := r, req_latency := l\<rparr>)])
     \<and> sensorDeleteRequestor pool h c = Some (pool[j := None])"
proof (induction pool)
  case Nil
  then show ?case by simp
next
  case (Cons x xs)
  show ?case
  proof (cases "\<exists>q. x = Some q \<and> req_handle q = h \<and> req_clientId q = c")
    case True
    then obtain q where q: "x = Some q" "req_handle q = h" "req_clientId q = c" by blast
    with Cons.prems have "req_rate q = r0" "req_latency q = l0" by auto
    with q have "0 < length (x # xs) \<and> (x # xs) ! 0 = Some q \<and> req_handle q = h
        \<and> req_clientId q = c \<and> req_rate q = r0 \<and> req_latency q = l0
        \<and> sensorAmendRequestor (x # xs) h c r l
            = Some ((x # xs)[0 := Some (q\<lparr>req_rate := r, req_latency := l\<rparr>)])
        \<and> sensorDeleteRequestor (x # xs) h c = Some ((x # xs)[0 := None])"
      by simp
    then show ?thesis by blast
  next
    case False
    with Cons.prems have "sensorGetCurRequestorRate xs h c = Some (r0, l0)"
      by (auto split: option.splits if_splits)
    from Cons.IH [OF this] obtain j q where
      j: "j < length xs" "xs ! j = Some q" "req_handle q = h" "req_clientId q = c"
         "req_rate q = r0" "req_latency q = l0"
         "sensorAmendRequestor xs h c r l
            = Some (xs[j := Some (q\<lparr>req_rate := r, req_latency := l\<rparr>)])"
         "sensorDeleteRequestor xs h c = Some (xs[j := None])"
      by blast
    with False have "Suc j < length (x # xs) \<and> (x # xs) ! Suc j = Some q \<and> req_handle q = h
        \<and> req_clientId q = c \<and> req_rate q = r0 \<and> req_latency q = l0
        \<and> sensorAmendRequestor (x # xs) h c r l
            = Some ((x # xs)[Suc j := Some (q\<lparr>req_rate := r, req_latency := l\<rparr>)])
        \<and> sensorDeleteRequestor (x # xs) h c = Some ((x # xs)[Suc j := None])"
      by (auto split: option.splits)
    then show ?thesis by blast
  qed
qed

lemma getCur_None_amend:
  "sensorGetCurRequestorRate pool h c = None \<Longrightarrow> sensorAmendRequestor pool h c r l = None"
  by (induction pool) (auto split: option.splits if_splits)

subsection \<open>The precheck of a rate change\<close>

lemma counted_nonzero:
  "filter (\<lambda>x. x \<noteq> SENSOR_RATE_OFF) (countedRates rm rs)
     = filter (\<lambda>x. x \<noteq> SENSOR_RATE_OFF) (remove1 rm rs)"
  by (induction rs arbitrary: rm) (auto simp: countedRates_OFF)

lemma concreteRates_filter:
  "concreteRates k (filter (\<lambda>x. x \<noteq> SENSOR_RATE_OFF) rs) = concreteRates k rs"
  by (induction rs) (auto simp: concreteRates_def)

lemma concreteRates_mset:
  "mset rs = mset rs' \<Longrightarrow> set (concreteRates k rs) = set (concreteRates k rs')"
  using mset_eq_setD [of rs rs'] by (simp add: concreteRates_def)

lemma precheck_highestReq:
  assumes "j < length pool" and "pool ! j = Some q" and "req_handle q = h"
  shows "highestReq (sensorCalcHwRate_loop k h pool (sensorCalcHwRate_init k e (req_rate q)))
       = highestReq (sensorCalcHwRate_loop k h (pool[j := None]) (sensorCalcHwRate_init k e 0))"
proof -
  let ?rs = "liveRates h pool" and ?rs' = "liveRates h (pool[j := None])"
  from liveRequests_update [OF assms(1), of h None] assms(2,3)
  have "mset (liveRequests h (pool[j := None])) + {#q#} = mset (liveRequests h pool)"
    by simp
  then have "mset ?rs' + {#req_rate q#} = mset ?rs"
    unfolding liveRates_def by (metis mset_map image_mset_single image_mset_union)
  then have m: "mset (remove1 (req_rate q) ?rs) = mset ?rs'"
    by (metis add_mset_add_single add_mset_remove_trivial mset_remove1)
  have "set (concreteRates k (countedRates (req_rate q) ?rs))
          = set (concreteRates k (remove1 (req_rate q) ?rs))"
    using concreteRates_filter [of k "countedRates (req_rate q) ?rs"]
          concreteRates_filter [of k "remove1 (req_rate q) ?rs"]
    by (simp add: counted_nonzero)
  also have "\<dots> = set (concreteRates k ?rs')"
    using m by (rule concreteRates_mset)
  also have "\<dots> = set (concreteRates k (countedRates 0 ?rs'))"
    using concreteRates_filter [of k ?rs'] by (simp add: countedRates_0 sentinels)
  finally show ?thesis
    by (simp add: loop_highestReq fold_max_Max sensorCalcHwRate_init_def)
qed

lemma calc_impossible_iff:
  assumes "SENSOR_RATE_ONDEMAND k \<noteq> SENSOR_RATE_IMPOSSIBLE"
    and "SENSOR_RATE_ONCHANGE k \<noteq> SENSOR_RATE_IMPOSSIBLE"
    and "highestReq (sensorCalcHwRate_loop k (handle s) p1 (sensorCalcHwRate_init k e r1))
       = highestReq (sensorCalcHwRate_loop k (handle s) p2 (sensorCalcHwRate_init k e r2))"
  shows "(sensorCalcHwRate k p1 s e r1 = Some SENSOR_RATE_IMPOSSIBLE)
       = (sensorCalcHwRate k p2 s e r2 = Some SENSOR_RATE_IMPOSSIBLE)"
proof (cases "highestReq (sensorCalcHwRate_loop k (handle s) p2 (sensorCalcHwRate_init k e r2)) = 0")
  case True
  with assms show ?thesis
    by (simp add: sensorCalcHwRate_def Let_def) (simp add: sentinels)
next
  case False
  with assms(3) show ?thesis
    by (simp add: sensorCalcHwRate_def Let_def split: option.splits)
qed


subsection \<open>The shape of successful calls\<close>

lemma rateChange_success:
  assumes "sensorFindByHandle (mSensors st) h = Some i"
    and "sensorGetCurRequestorRate (mCliSensMatrix st) h c = Some (oldRate, oldLatency)"
    and "sensorCalcHwRate k (mCliSensMatrix st) (mSensors st ! i) r oldRate = Some x"
    and "x \<noteq> SENSOR_RATE_IMPOSSIBLE"
    and "sensorAmendRequestor (mCliSensMatrix st) h c r l = Some poolA"
  shows "\<exists>stA. sensorRequestRateChange k drv st c h r l = Some (stA, True)
           \<and> mCliSensMatrix stA = poolA
           \<and> mSensors stA = (mSensors st)[i := fst (sensorReconfig drv (mSensors st ! i) x
                 (sensorCalcHwLatency poolA (mSensors st ! i)))]"
  using assms by (simp add: sensorRequestRateChange_def split: prod.splits)

lemma request_success:
  assumes "sensorFindByHandle (mSensors st) h = Some i"
    and "sensorCalcHwRate k (mCliSensMatrix st) (mSensors st ! i) r 0 = Some x"
    and "x \<noteq> SENSOR_RATE_IMPOSSIBLE"
  shows "\<exists>stB. sensorRequest k drv (Some m) st c h r l = Some (stB, True)
           \<and> mCliSensMatrix stB = (mCliSensMatrix st)[m :=
                 Some \<lparr>req_handle = h, req_clientId = c, req_latency = l, req_rate = r\<rparr>]
           \<and> mSensors stB = (mSensors st)[i := fst (sensorReconfig drv (mSensors st ! i) x
                 (sensorCalcHwLatency ((mCliSensMatrix st)[m :=
                    Some \<lparr>req_handle = h, req_clientId = c, req_latency = l, req_rate = r\<rparr>])
                    (mSensors st ! i)))]"
  using assms by (simp add: sensorRequest_def sensorAddRequestor_def split: prod.splits)

lemma release_success:
  assumes "sensorFindByHandle (mSensors st) h = Some i"
    and "sensorDeleteRequestor (mCliSensMatrix st) h c = Some pool'"
    and "sensorCalcHwRate k pool' (mSensors st ! i) 0 0 = Some y"
  shows "\<exists>st1. sensorRelease k drv st c h = Some (st1, True)
           \<and> mCliSensMatrix st1 = pool'
           \<and> mSensors st1 = (mSensors st)[i := fst (sensorReconfig drv (mSensors st ! i) y
                 (sensorCalcHwLatency pool' (mSensors st ! i)))]"
  using assms by (simp add: sensorRelease_def split: prod.splits)

lemma slot_after_reconfig:
  assumes "sensorFindByHandle xs h = Some i"
  shows "sensorFindByHandle (xs[i := fst (sensorReconfig drv (xs ! i) x y)]) h = Some i"
    and "xs[i := fst (sensorReconfig drv (xs ! i) x y)] ! i = fst (sensorReconfig drv (xs ! i) x y)"
  using find_Some [OF assms] find_update_same [OF assms]
  by (simp_all add: reconfig_keeps)

lemma outputs_set:
  assumes "sensorFindByHandle (mSensors stA) h = Some i"
    and "sensorFindByHandle (mSensors stB) h = Some i'"
    and "si (mSensors stA ! i) = si (mSensors stB ! i')"
    and "set (liveRequests h (mCliSensMatrix stA)) = set (liveRequests h (mCliSensMatrix stB))"
  shows "aggregatorOutputs k stA h = aggregatorOutputs k stB h"
proof -
  from find_Some [OF assms(1)] find_Some [OF assms(2)]
  have h: "handle (mSensors stA ! i) = h" "handle (mSensors stB ! i') = h" by auto
  have rates: "set (liveRates h (mCliSensMatrix stA)) = set (liveRates h (mCliSensMatrix stB))"
    using assms(4) by (simp add: liveRates_def)
  have "sensorCalcHwRate_loop k h (mCliSensMatrix stA) (sensorCalcHwRate_init k 0 0)
      = sensorCalcHwRate_loop k h (mCliSensMatrix stB) (sensorCalcHwRate_init k 0 0)"
    by (rule loop_zero_set [OF _ rates]) (simp add: sensorCalcHwRate_init_def)
  then have "sensorCalcHwRate k (mCliSensMatrix stA) (mSensors stA ! i) 0 0
      = sensorCalcHwRate k (mCliSensMatrix stB) (mSensors stB ! i') 0 0"
    using h assms(3) by (simp add: sensorCalcHwRate_def Let_def)
  moreover have "sensorCalcHwLatency (mCliSensMatrix stA) (mSensors stA ! i)
      = sensorCalcHwLatency (mCliSensMatrix stB) (mSensors stB ! i')"
    using h latency_set [OF assms(4)] by (simp add: sensorCalcHwLatency_def)
  ultimately show ?thesis
    using assms(1,2) by (simp add: aggregatorOutputs_def)
qed

subsection \<open>The rate invariant, step by step\<close>

lemma list_all_update:
  "list_all P xs \<Longrightarrow> P x \<Longrightarrow> list_all P (xs[i := x])"
  by (induction xs arbitrary: i) (auto split: nat.splits)

lemma list_all_slot:
  "list_all P xs \<Longrightarrow> sensorFindByHandle xs h = Some i \<Longrightarrow> P (xs ! i)"
  using find_Some [of xs h i] by (simp add: list_all_length)

lemma reconfig_rate:
  "currentRate (fst (sensorReconfig drv s r l)) = currentRate s
   \<or> currentRate (fst (sensorReconfig drv s r l)) = SENSOR_RATE_POWERING_ON
   \<or> currentRate (fst (sensorReconfig drv s r l)) = SENSOR_RATE_POWERING_OFF"
  by (simp add: sensorReconfig_def sensorCallFuncPower_def sensorCallFuncSetRate_def)

lemma sensorRateOk_si: "si s' = si s \<Longrightarrow> sensorRateOk k s' r = sensorRateOk k s r"
  by (simp add: sensorRateOk_def)

lemma sensorRateOk_sentinel:
  "sensorRateOk k s SENSOR_RATE_POWERING_ON" "sensorRateOk k s SENSOR_RATE_POWERING_OFF"
  "sensorRateOk k s SENSOR_RATE_FW_UPLOADING" "sensorRateOk k s SENSOR_RATE_OFF"
  by (simp_all add: sensorRateOk_def)

lemma slotOk_reconfig:
  assumes "slotOk k s"
  shows "slotOk k (fst (sensorReconfig drv s r l))"
proof -
  let ?s' = "fst (sensorReconfig drv s r l)"
  have ok: "sensorRateOk k ?s' x = sensorRateOk k s x" for x
    by (rule sensorRateOk_si) (simp add: reconfig_keeps)
  from reconfig_rate [of drv s r l] assms show ?thesis
    unfolding slotOk_def ok reconfig_keeps by (auto simp: sensorRateOk_sentinel)
qed

lemma slotOk_rate:
  "sensorRateOk k s x \<Longrightarrow> slotOk k (s\<lparr>currentRate := x, currentLatency := y\<rparr>)"
  by (simp add: slotOk_def sensorRateOk_def)

lemma slotOk_unlive: "slotOk k (s\<lparr>handle := 0\<rparr>)"
  by (simp add: slotOk_def)

lemma slotOk_fresh:
  "slotOk k \<lparr>si = i, handle = h, currentLatency = l, currentRate = SENSOR_RATE_OFF, callInfo = ci\<rparr>"
  by (simp add: slotOk_def sensorRateOk_def)

lemma ok_init: "liveSensorsOk k (sensorsInit k)"
  by (simp add: liveSensorsOk_def sensorsInit_def zeroSensor_def list_all_length slotOk_def)

lemma ok_register:
  "liveSensorsOk k st \<Longrightarrow> sensorRegisterEx st info ci found = Some (st', h) \<Longrightarrow>
   liveSensorsOk k st'"
  by (auto simp: liveSensorsOk_def sensorRegisterEx_def
        intro!: list_all_update slotOk_fresh split: option.splits)

lemma ok_unregister:
  "liveSensorsOk k st \<Longrightarrow> sensorUnregister st h = (st', b) \<Longrightarrow> liveSensorsOk k st'"
  by (auto simp: liveSensorsOk_def sensorUnregister_def intro!: list_all_update slotOk_unlive
        split: option.splits)

lemma ok_reconfigured:
  assumes "liveSensorsOk k st" and "sensorFindByHandle (mSensors st) h = Some i"
    and "mSensors st' = (mSensors st)[i := fst (sensorReconfig drv (mSensors st ! i) x y)]"
  shows "liveSensorsOk k st'"
  using assms list_all_slot [OF _ assms(2), of "slotOk k"]
  by (auto simp: liveSensorsOk_def intro!: list_all_update slotOk_reconfig)

lemma ok_request:
  assumes "liveSensorsOk k st" and "sensorRequest k drv cell st c h r l = Some (st', b)"
  shows "liveSensorsOk k st'"
proof (cases b)
  case False
  with assms(2) have "st' = st"
    by (auto simp: sensorRequest_def split: option.splits if_splits prod.splits)
  with assms(1) show ?thesis by simp
next
  case True
  with assms(2) obtain i x pool where
    "sensorFindByHandle (mSensors st) h = Some i"
    "mSensors st' = (mSensors st)[i := fst (sensorReconfig drv (mSensors st ! i) x
           (sensorCalcHwLatency pool (mSensors st ! i)))]"
    by (auto simp: sensorRequest_def case_prod_unfold split: option.splits if_splits)
  with assms(1) show ?thesis by (rule ok_reconfigured)
qed

lemma ok_rateChange:
  assumes "liveSensorsOk k st" and "sensorRequestRateChange k drv st c h r l = Some (st', b)"
  shows "liveSensorsOk k st'"
proof (cases b)
  case False
  with assms(2) have "st' = st"
    by (auto simp: sensorRequestRateChange_def split: option.splits if_splits prod.splits)
  with assms(1) show ?thesis by simp
next
  case True
  with assms(2) obtain i x pool where
    "sensorFindByHandle (mSensors st) h = Some i"
    "mSensors st' = (mSensors st)[i := fst (sensorReconfig drv (mSensors st ! i) x
           (sensorCalcHwLatency pool (mSensors st ! i)))]"
    by (auto simp: sensorRequestRateChange_def case_prod_unfold split: option.splits if_splits)
  with assms(1) show ?thesis by (rule ok_reconfigured)
qed

lemma ok_release:
  assumes "liveSensorsOk k st" and "sensorRelease k drv st c h = Some (st', b)"
  shows "liveSensorsOk k st'"
proof (cases b)
  case False
  with assms(2) have "st' = st"
    by (auto simp: sensorRelease_def split: option.splits if_splits prod.splits)
  with assms(1) show ?thesis by simp
next
  case True
  with assms(2) obtain i x pool where
    "sensorFindByHandle (mSensors st) h = Some i"
    "mSensors st' = (mSensors st)[i := fst (sensorReconfig drv (mSensors st ! i) x
           (sensorCalcHwLatency pool (mSensors st ! i)))]"
    by (auto simp: sensorRelease_def case_prod_unfold split: option.splits if_splits)
  with assms(1) show ?thesis by (rule ok_reconfigured)
qed

lemma ok_trigger:
  "liveSensorsOk k st \<Longrightarrow> sensorTriggerOndemand drv st c h = (st', b) \<Longrightarrow> liveSensorsOk k st'"
  by (auto simp: liveSensorsOk_def sensorTriggerOndemand_def sensorCallFuncTrigger_def
        split: option.splits)

lemma ok_flush:
  "liveSensorsOk k st \<Longrightarrow> sensorFlush drv st h = (st', b) \<Longrightarrow> liveSensorsOk k st'"
  by (auto simp: liveSensorsOk_def sensorFlush_def sensorCallFuncFlush_def
        split: option.splits)

lemma ok_powerEvt:
  "liveSensorsOk k st \<Longrightarrow> liveSensorsOk k (sensorInternalPowerStateChanged drv st evt)"
  by (auto simp: liveSensorsOk_def sensorInternalPowerStateChanged_def Let_def
        sensorCallFuncPower_def sensorCallFuncFwUpld_def sensorRateOk_sentinel
        intro!: list_all_update slotOk_rate split: option.splits)

lemma ok_rateEvt:
  "liveSensorsOk k st \<Longrightarrow> eventPayloadOk (sensorRateOk k) st evt \<Longrightarrow>
   liveSensorsOk k (sensorInternalRateChanged st evt)"
  by (auto simp: liveSensorsOk_def sensorInternalRateChanged_def eventPayloadOk_def
        intro!: list_all_update slotOk_rate split: option.splits)

lemma ok_fwEvt:
  assumes ok: "liveSensorsOk k st" and payload: "eventPayloadOk (sensorRateOk k) st evt"
    and run: "sensorInternalFwStateChanged k drv st evt = Some st'"
  shows "liveSensorsOk k st'"
proof (cases "sensorFindByHandle (mSensors st) (evt_handle evt)")
  case None
  with run ok show ?thesis by (simp add: sensorInternalFwStateChanged_def)
next
  case (Some i)
  let ?s = "mSensors st ! i"
  let ?s1 = "?s\<lparr>currentRate := evt_value1 evt, currentLatency := evt_value2 evt\<rparr>"
  from payload Some have "sensorRateOk k ?s (evt_value1 evt)"
    by (simp add: eventPayloadOk_def)
  then have s1: "slotOk k ?s1" by (rule slotOk_rate)
  consider (failed) "evt_value1 evt = 0"
    | (up) "evt_value1 evt \<noteq> 0" "currentRate ?s = SENSOR_RATE_FW_UPLOADING"
    | (off) "evt_value1 evt \<noteq> 0" "currentRate ?s \<noteq> SENSOR_RATE_FW_UPLOADING"
    by blast
  then show ?thesis
  proof cases
    case failed
    with run Some ok show ?thesis
      by (auto simp: sensorInternalFwStateChanged_def Let_def sensorCallFuncPower_def
            liveSensorsOk_def sensorRateOk_sentinel intro!: list_all_update slotOk_rate)
  next
    case up
    with run Some obtain x where
      "mSensors st' = (mSensors st)[i := fst (sensorReconfig drv ?s1 x
           (sensorCalcHwLatency (mCliSensMatrix st) ?s1))]"
      by (auto simp: sensorInternalFwStateChanged_def Let_def case_prod_unfold
            split: option.splits)
    with ok show ?thesis
      using slotOk_reconfig [OF s1]
      by (auto simp: liveSensorsOk_def intro!: list_all_update)
  next
    case off
    with run Some ok show ?thesis
      by (auto simp: sensorInternalFwStateChanged_def Let_def sensorCallFuncPower_def
            liveSensorsOk_def split: if_splits)
  qed
qed

subsection \<open>A registered sensor\<close>

lemma example_grab: "sensorRegisterEx_grab [zeroSensor, zeroSensor] 0 = Some (1, 2)"
  by (subst sensorRegisterEx_grab.simps, simp, subst sensorRegisterEx_grab.simps)
     (simp add: zeroSensor_def)

lemma example_registered:
  "sensorRegisterEx (sensorsInit exampleH) exampleInfo 0 (Some 0)
     = Some (exampleState (exampleSensor SENSOR_RATE_OFF SENSOR_LATENCY_INVALID) [], 1)"
  by (simp add: sensorRegisterEx_def sensorsInit_def exampleH_def numeral_2_eq_2 example_grab)
     (simp add: exampleState_def exampleSensor_def)

lemma example_reachable:
  "reachable exampleH P (exampleState (exampleSensor SENSOR_RATE_OFF SENSOR_LATENCY_INVALID) [])"
proof (rule r_register [OF r_init _ example_registered])
  show "atomicBitsetFindClearAndSet_ok (mSensorsUsed (sensorsInit exampleH)) (Some 0)"
    by (simp add: atomicBitsetFindClearAndSet_ok_def sensorsInit_def exampleH_def)
qed

lemma liveRequests_free [simp]: "liveRequests h (replicate n None) = []"
  by (induction n) auto

lemma countedRates_remove1:
  "SENSOR_RATE_OFF \<notin> set rs \<Longrightarrow>
   countedRates removed rs = (if removed = SENSOR_RATE_OFF then rs else remove1 removed rs)"
proof (induction rs)
  case Nil
  then show ?case by simp
next
  case (Cons r rs)
  then have "filter (\<lambda>x. x \<noteq> SENSOR_RATE_OFF) rs = rs" by (auto simp: filter_id_conv)
  with Cons show ?case by (auto simp: countedRates_OFF)
qed

lemma rateLoop_counted_request:
  assumes "SENSOR_RATE_ONDEMAND k \<noteq> SENSOR_RATE_ONCHANGE k"
    and "req_handle q = h" and "req_rate q \<noteq> removedRate w"
  shows "sensorCalcHwRate_loop k h [Some q] w = contributeRate k (req_rate q) w"
  using assms by (auto simp: contributeRate_def max_def intro!: HwRateVars.equality)

subsection \<open>Steps that change \<open>currentRate\<close> to listed values only\<close>

lemma step_same: "mSensors st' = mSensors st \<Longrightarrow> currentRatesStep allowed st st'"
  by (simp add: currentRatesStep_def list_all2_conv_all_nth)

lemma step_update:
  assumes "mSensors st' = (mSensors st)[i := x]"
    and "currentRate x = currentRate (mSensors st ! i) \<or> currentRate x \<in> set allowed"
  shows "currentRatesStep allowed st st'"
  unfolding currentRatesStep_def list_all2_conv_all_nth
proof (intro conjI allI impI)
  show "length (mSensors st) = length (mSensors st')" using assms(1) by simp
next
  fix j assume "j < length (mSensors st)"
  then show "currentRate (mSensors st' ! j) = currentRate (mSensors st ! j)
               \<or> currentRate (mSensors st' ! j) \<in> set allowed"
    using assms by (cases "j = i") simp_all
qed

lemma step_reconfigured:
  assumes "mSensors st' = (mSensors st)[i := fst (sensorReconfig drv (mSensors st ! i) x y)]"
  shows "currentRatesStep [SENSOR_RATE_POWERING_ON, SENSOR_RATE_POWERING_OFF] st st'"
  using assms reconfig_rate [of drv "mSensors st ! i" x y]
  by (intro step_update [OF assms]) auto

lemma step_request:
  assumes "sensorRequest k drv cell st c h r l = Some (st', b)"
  shows "currentRatesStep [SENSOR_RATE_POWERING_ON, SENSOR_RATE_POWERING_OFF] st st'"
proof (cases b)
  case False
  with assms have "st' = st"
    by (auto simp: sensorRequest_def split: option.splits if_splits prod.splits)
  then show ?thesis by (simp add: step_same)
next
  case True
  with assms obtain i x pool where
    "mSensors st' = (mSensors st)[i := fst (sensorReconfig drv (mSensors st ! i) x
           (sensorCalcHwLatency pool (mSensors st ! i)))]"
    by (auto simp: sensorRequest_def case_prod_unfold split: option.splits if_splits)
  then show ?thesis by (rule step_reconfigured)
qed

lemma step_rateChange:
  assumes "sensorRequestRateChange k drv st c h r l = Some (st', b)"
  shows "currentRatesStep [SENSOR_RATE_POWERING_ON, SENSOR_RATE_POWERING_OFF] st st'"
proof (cases b)
  case False
  with assms have "st' = st"
    by (auto simp: sensorRequestRateChange_def split: option.splits if_splits prod.splits)
  then show ?thesis by (simp add: step_same)
next
  case True
  with assms obtain i x pool where
    "mSensors st' = (mSensors st)[i := fst (sensorReconfig drv (mSensors st ! i) x
           (sensorCalcHwLatency pool (mSensors st ! i)))]"
    by (auto simp: sensorRequestRateChange_def case_prod_unfold split: option.splits if_splits)
  then show ?thesis by (rule step_reconfigured)
qed

lemma step_release:
  assumes "sensorRelease k drv st c h = Some (st', b)"
  shows "currentRatesStep [SENSOR_RATE_POWERING_ON, SENSOR_RATE_POWERING_OFF] st st'"
proof (cases b)
  case False
  with assms have "st' = st"
    by (auto simp: sensorRelease_def split: option.splits if_splits prod.splits)
  then show ?thesis by (simp add: step_same)
next
  case True
  with assms obtain i x pool where
    "mSensors st' = (mSensors st)[i := fst (sensorReconfig drv (mSensors st ! i) x
           (sensorCalcHwLatency pool (mSensors st ! i)))]"
    by (auto simp: sensorRelease_def case_prod_unfold split: option.splits if_splits)
  then show ?thesis by (rule step_reconfigured)
qed

lemma step_trigger:
  "sensorTriggerOndemand drv st c h = (st', b) \<Longrightarrow> currentRatesStep [] st st'"
  by (rule step_same)
     (auto simp: sensorTriggerOndemand_def case_prod_unfold split: option.splits)

lemma step_flush:
  "sensorFlush drv st h = (st', b) \<Longrightarrow> currentRatesStep [] st st'"
  by (rule step_same) (auto simp: sensorFlush_def case_prod_unfold split: option.splits)

lemma step_unregister:
  assumes "sensorUnregister st h = (st', b)"
  shows "currentRatesStep [] st st'"
proof (cases "sensorFindByHandle (mSensors st) h")
  case None
  with assms show ?thesis by (intro step_same) (auto simp: sensorUnregister_def)
next
  case (Some i)
  with assms have "mSensors st' = (mSensors st)[i := (mSensors st ! i)\<lparr>handle := 0\<rparr>]"
    by (auto simp: sensorUnregister_def)
  then show ?thesis by (rule step_update) simp
qed

lemma step_register:
  assumes "sensorRegisterEx st info ci found = Some (st', h)"
  shows "currentRatesStep [SENSOR_RATE_OFF] st st'"
proof (cases found)
  case None
  with assms show ?thesis by (intro step_same) (auto simp: sensorRegisterEx_def)
next
  case (Some idx)
  with assms obtain x where "mSensors st' = (mSensors st)[idx := x]"
    and "currentRate x = SENSOR_RATE_OFF"
    by (auto simp: sensorRegisterEx_def split: option.splits)
  then show ?thesis
    using step_update [of st' st idx x "[SENSOR_RATE_OFF]"] by simp
qed

lemma step_powerEvt:
  "currentRatesStep [SENSOR_RATE_OFF, SENSOR_RATE_FW_UPLOADING] st
     (sensorInternalPowerStateChanged drv st evt)"
proof (cases "sensorFindByHandle (mSensors st) (evt_handle evt)")
  case None
  then show ?thesis by (intro step_same) (simp add: sensorInternalPowerStateChanged_def)
next
  case (Some i)
  let ?s = "mSensors st ! i"
  have "mSensors (sensorInternalPowerStateChanged drv st evt) = mSensors st
        \<or> mSensors (sensorInternalPowerStateChanged drv st evt)
            = (mSensors st)[i := ?s\<lparr>currentRate := SENSOR_RATE_FW_UPLOADING,
                                      currentLatency := SENSOR_LATENCY_INVALID\<rparr>]
        \<or> mSensors (sensorInternalPowerStateChanged drv st evt)
            = (mSensors st)[i := ?s\<lparr>currentRate := SENSOR_RATE_OFF,
                                      currentLatency := SENSOR_LATENCY_INVALID\<rparr>]"
    using Some
    by (simp add: sensorInternalPowerStateChanged_def Let_def case_prod_unfold)
  then show ?thesis
    by (elim disjE) (erule step_same, (erule step_update, simp)+)
qed

section \<open>The aggregator computes what the specification says\<close>

text \<open>
  C1, as amended. For a sensor with a descriptor whose \<open>supportedRates\<close> array has its
  zero terminator, and for every request table in which no live request of the sensor
  has the rate \<open>OFF\<close>, every extra rate and every removed rate, \<open>sensorCalcHwRate\<close>
  returns: \<open>OFF\<close> when no contribution (the extra rate, the live requests less one
  instance of the removed rate) is a user; \<open>ON-CHANGE\<close> when there are users, none of the
  contributions is a concrete rate and one of them is \<open>ON-CHANGE\<close>; \<open>ON-DEMAND\<close> when
  there are users, no concrete rate and no \<open>ON-CHANGE\<close>; and otherwise the first entry of
  \<open>supportedRates\<close> that is at least the largest concrete contribution, or \<open>IMPOSSIBLE\<close>
  when no entry is. The two pseudo-rates are taken to be different, and \<open>ON-CHANGE\<close>
  different from \<open>OFF\<close>.
\<close>

theorem sensorCalcHwRate_refines_spec:
  assumes distinct: "SENSOR_RATE_ONDEMAND k \<noteq> SENSOR_RATE_ONCHANGE k"
    and onchange: "SENSOR_RATE_ONCHANGE k \<noteq> SENSOR_RATE_OFF"
    and info: "si s = Some info"
    and terminated: "0 \<in> set (supportedRates info)"
    and rates: "SENSOR_RATE_OFF \<notin> set (liveRates (handle s) pool)"
  shows "sensorCalcHwRate k pool s extraRate removed =
           Some (calcHwRate_spec k pool s info extraRate removed)"
proof -
  define v0 where "v0 = sensorCalcHwRate_init k extraRate removed"
  define v where "v = sensorCalcHwRate_loop k (handle s) pool v0"
  define counted where "counted = countedRates removed (liveRates (handle s) pool)"
  define contributed where "contributed = contributedRates pool s extraRate removed"
  define concrete where "concrete = concreteRates k contributed"
  have rem0: "removedRate v0 = removed"
    by (simp add: v0_def sensorCalcHwRate_init_def)
  have contributed_eq:
    "contributed = (if extraRate = 0 then [] else [extraRate]) @ counted"
    unfolding contributed_def contributedRates_def counted_def countedRates_remove1 [OF rates]
    by (simp add: sentinels)
  have "SENSOR_RATE_OFF \<notin> set counted"
    unfolding counted_def countedRates_remove1 [OF rates]
    using rates by (auto simp: notin_set_remove1)
  then have "SENSOR_RATE_OFF \<notin> set contributed"
    by (simp add: contributed_eq sentinels)
  then have nonzero_all: "filter (\<lambda>r. r \<noteq> SENSOR_RATE_OFF) contributed = contributed"
    by (auto simp: filter_id_conv)
  have users: "haveUsers v = (filter (\<lambda>r. r \<noteq> SENSOR_RATE_OFF) contributed \<noteq> [])"
    unfolding nonzero_all
    unfolding v_def loop_haveUsers rem0 contributed_eq counted_def
    by (simp add: v0_def sensorCalcHwRate_init_def)
  have onch: "haveOnChange v = (SENSOR_RATE_ONCHANGE k \<in> set contributed)"
    unfolding v_def loop_haveOnChange [OF distinct] rem0 contributed_eq counted_def
    using onchange by (auto simp: v0_def sensorCalcHwRate_init_def sentinels)
  have high: "highestReq v = fold max (concreteRates k counted) (highestReq v0)"
    unfolding v_def loop_highestReq rem0 counted_def ..
  have concrete_eq:
    "concrete = (if highestReq v0 = 0 then [] else [highestReq v0]) @ concreteRates k counted"
    unfolding concrete_def contributed_eq
    by (auto simp: v0_def sensorCalcHwRate_init_def concreteRates_def sentinels)
  have zero: "(highestReq v = 0) = (concrete = [])"
    unfolding high fold_max_word_eq_0 concrete_eq
    using concreteRates_nonzero [of _ k counted] by (cases "concreteRates k counted") auto
  have nonzero: "highestReq v = Max (set concrete)" if "concrete \<noteq> []"
  proof (cases "highestReq v0 = 0")
    case True
    with that have ne: "concreteRates k counted \<noteq> []" by (simp add: concrete_eq)
    then obtain x xs where xs: "concreteRates k counted = x # xs"
      by (cases "concreteRates k counted") auto
    have "Max (insert 0 (set (x # xs))) = Max (set (x # xs))"
      by (metis List.finite_set Max_insert list.set(2) max.absorb2 word_coorder.extremum
            insert_not_empty)
    then show ?thesis unfolding high fold_max_Max concrete_eq using True xs by simp
  next
    case False
    then show ?thesis unfolding high fold_max_Max concrete_eq by simp
  qed
  show ?thesis
  proof (cases "concrete = []")
    case True
    then show ?thesis
      using zero users onch
      by (simp add: sensorCalcHwRate_def calcHwRate_spec_def Let_def
            v_def [symmetric] v0_def [symmetric] contributed_def [symmetric]
            concrete_def [symmetric])
  next
    case False
    then show ?thesis
      using zero nonzero info scan_firstSupportedRate [OF terminated]
      by (simp add: sensorCalcHwRate_def calcHwRate_spec_def Let_def
            v_def [symmetric] v0_def [symmetric] contributed_def [symmetric]
            concrete_def [symmetric])
  qed
qed


theorem sensorCalcHwRate_refines_spec_witness:
  "SENSOR_RATE_ONDEMAND exampleH \<noteq> SENSOR_RATE_ONCHANGE exampleH
   \<and> SENSOR_RATE_ONCHANGE exampleH \<noteq> SENSOR_RATE_OFF
   \<and> si (exampleSensor 0 0) = Some exampleInfo
   \<and> 0 \<in> set (supportedRates exampleInfo)
   \<and> SENSOR_RATE_OFF \<notin> set (liveRates (handle (exampleSensor 0 0))
         [Some (exampleReq 7 5), None])
   \<and> SENSOR_RATE_OFF \<notin> set (liveRates (handle (exampleSensor 0 0))
         [Some (exampleReq 7 (SENSOR_RATE_ONCHANGE exampleH)), None])
   \<and> sensorCalcHwRate exampleH [Some (exampleReq 7 5), None] (exampleSensor 0 0) 7 0 = Some 10
   \<and> sensorCalcHwRate exampleH [Some (exampleReq 7 5), None] (exampleSensor 0 0) 11 5
        = Some SENSOR_RATE_IMPOSSIBLE
   \<and> sensorCalcHwRate exampleH [Some (exampleReq 7 5), None] (exampleSensor 0 0) 0 5
        = Some SENSOR_RATE_OFF
   \<and> sensorCalcHwRate exampleH
        [Some (exampleReq 7 (SENSOR_RATE_ONCHANGE exampleH)), None] (exampleSensor 0 0)
        (SENSOR_RATE_ONDEMAND exampleH) 0
        = Some (SENSOR_RATE_ONCHANGE exampleH)"
proof -
  have a: "SENSOR_RATE_ONDEMAND exampleH \<noteq> SENSOR_RATE_ONCHANGE exampleH"
    by (simp add: examples)
  have b: "SENSOR_RATE_ONCHANGE exampleH \<noteq> SENSOR_RATE_OFF"
    by (simp add: examples sentinels)
  have c: "si (exampleSensor 0 0) = Some exampleInfo"
    by (simp add: examples)
  have d: "0 \<in> set (supportedRates exampleInfo)"
    by (simp add: examples)
  have e: "SENSOR_RATE_OFF \<notin> set (liveRates (handle (exampleSensor 0 0))
             [Some (exampleReq 7 5), None])"
    by (simp add: liveRates_def examples sentinels)
  have f: "SENSOR_RATE_OFF \<notin> set (liveRates (handle (exampleSensor 0 0))
             [Some (exampleReq 7 (SENSOR_RATE_ONCHANGE exampleH)), None])"
    by (simp add: liveRates_def examples sentinels)
  note rule5 = sensorCalcHwRate_refines_spec [OF a b c d e]
  note ruleOnChange = sensorCalcHwRate_refines_spec [OF a b c d f]
  have e1: "calcHwRate_spec exampleH [Some (exampleReq 7 5), None] (exampleSensor 0 0)
              exampleInfo 7 0 = 10"
    by (simp add: calcHwRate_spec_def contributedRates_def concreteRates_def liveRates_def
          firstSupportedRate_def examples sentinels)
  have e2: "calcHwRate_spec exampleH [Some (exampleReq 7 5), None] (exampleSensor 0 0)
              exampleInfo 11 5 = SENSOR_RATE_IMPOSSIBLE"
    by (simp add: calcHwRate_spec_def contributedRates_def concreteRates_def liveRates_def
          firstSupportedRate_def examples sentinels)
  have e3: "calcHwRate_spec exampleH [Some (exampleReq 7 5), None] (exampleSensor 0 0)
              exampleInfo 0 5 = SENSOR_RATE_OFF"
    by (simp add: calcHwRate_spec_def contributedRates_def concreteRates_def liveRates_def
          firstSupportedRate_def examples sentinels)
  have e4: "calcHwRate_spec exampleH [Some (exampleReq 7 (SENSOR_RATE_ONCHANGE exampleH)), None]
              (exampleSensor 0 0) exampleInfo (SENSOR_RATE_ONDEMAND exampleH) 0
            = SENSOR_RATE_ONCHANGE exampleH"
    by (simp add: calcHwRate_spec_def contributedRates_def concreteRates_def liveRates_def
          firstSupportedRate_def examples sentinels)
  show ?thesis
    unfolding rule5 ruleOnChange e1 e2 e3 e4 using a b c d e f
    by (intro conjI) (rule refl | assumption)+
qed

text \<open>
  Without the restriction on the table the rule fails. With a request of rate \<open>OFF\<close> in
  the cell ahead of a request of rate 5, no extra rate and removed rate 5, nothing that
  contributes is a user and the rule gives \<open>OFF\<close>, while the loop has counted the request
  of rate \<open>OFF\<close> before it met the removed one and \<open>sensorCalcHwRate\<close> returns \<open>ON-DEMAND\<close>.
  With the two cells swapped it returns \<open>OFF\<close>.
\<close>

theorem sensorCalcHwRate_counts_off_request_counterexample:
  "si (exampleSensor 5 0) = Some exampleInfo
   \<and> 0 \<in> set (supportedRates exampleInfo)
   \<and> sensorCalcHwRate exampleH
        (mCliSensMatrix (exampleState (exampleSensor 5 0)
           [Some (exampleReq 8 SENSOR_RATE_OFF), Some (exampleReq 7 5)]))
        (exampleSensor 5 0) SENSOR_RATE_OFF 5
       = Some (SENSOR_RATE_ONDEMAND exampleH)
   \<and> calcHwRate_spec exampleH
        (mCliSensMatrix (exampleState (exampleSensor 5 0)
           [Some (exampleReq 8 SENSOR_RATE_OFF), Some (exampleReq 7 5)]))
        (exampleSensor 5 0) exampleInfo SENSOR_RATE_OFF 5
       = SENSOR_RATE_OFF
   \<and> SENSOR_RATE_ONDEMAND exampleH \<noteq> SENSOR_RATE_OFF
   \<and> sensorCalcHwRate exampleH
        (mCliSensMatrix (exampleState (exampleSensor 5 0)
           [Some (exampleReq 7 5), Some (exampleReq 8 SENSOR_RATE_OFF)]))
        (exampleSensor 5 0) SENSOR_RATE_OFF 5
       = Some SENSOR_RATE_OFF"
  by (simp add: sensorCalcHwRate_def sensorCalcHwRate_init_def calcHwRate_spec_def
        contributedRates_def concreteRates_def liveRates_def examples sentinels)


section \<open>\<open>sensorReconfig\<close>: the ladder of cases\<close>

text \<open>
  C2. \<open>sensorReconfig\<close> applies the first case of the ladder that matches: (1) the slot
  already has the target rate and latency: nothing changes and no binding call is made;
  (2) the slot is \<open>OFF\<close>: \<open>power(true)\<close> is called, and the slot becomes
  \<open>POWERING-ON\<close>/\<open>INVALID\<close> when the call succeeds and is unchanged when it fails;
  (3) the slot is \<open>POWERING-OFF\<close>: it becomes \<open>POWERING-ON\<close>/\<open>INVALID\<close> with no binding
  call, whatever the target; (4) the slot is \<open>POWERING-ON\<close> or \<open>FW-UPLOADING\<close>: nothing;
  (5) otherwise, when the target rate is above \<open>OFF\<close> or the target latency below
  \<open>INVALID\<close>: \<open>setRate\<close> is called with the target, its result is ignored and the slot is
  unchanged; (6) otherwise \<open>power(false)\<close> is called, and the slot becomes
  \<open>POWERING-OFF\<close>/\<open>INVALID\<close> when the call succeeds.
\<close>

theorem sensorReconfig_ladder:
  "(currentRate s = r \<and> currentLatency s = l \<longrightarrow>
      sensorReconfig drv s r l = (s, []))
   \<and> (\<not> (currentRate s = r \<and> currentLatency s = l) \<and> currentRate s = SENSOR_RATE_OFF \<longrightarrow>
      sensorReconfig drv s r l =
        (if drv (callInfo s) (CallPower True)
         then s\<lparr>currentRate := SENSOR_RATE_POWERING_ON, currentLatency := SENSOR_LATENCY_INVALID\<rparr>
         else s,
         [(callInfo s, CallPower True)]))
   \<and> (\<not> (currentRate s = r \<and> currentLatency s = l) \<and> currentRate s = SENSOR_RATE_POWERING_OFF \<longrightarrow>
      sensorReconfig drv s r l =
        (s\<lparr>currentRate := SENSOR_RATE_POWERING_ON, currentLatency := SENSOR_LATENCY_INVALID\<rparr>, []))
   \<and> (\<not> (currentRate s = r \<and> currentLatency s = l)
        \<and> (currentRate s = SENSOR_RATE_POWERING_ON \<or> currentRate s = SENSOR_RATE_FW_UPLOADING) \<longrightarrow>
      sensorReconfig drv s r l = (s, []))
   \<and> (\<not> (currentRate s = r \<and> currentLatency s = l)
        \<and> currentRate s \<noteq> SENSOR_RATE_OFF \<and> currentRate s \<noteq> SENSOR_RATE_POWERING_OFF
        \<and> currentRate s \<noteq> SENSOR_RATE_POWERING_ON \<and> currentRate s \<noteq> SENSOR_RATE_FW_UPLOADING
        \<and> (r > SENSOR_RATE_OFF \<or> l < SENSOR_LATENCY_INVALID) \<longrightarrow>
      sensorReconfig drv s r l = (s, [(callInfo s, CallSetRate r l)]))
   \<and> (\<not> (currentRate s = r \<and> currentLatency s = l)
        \<and> currentRate s \<noteq> SENSOR_RATE_OFF \<and> currentRate s \<noteq> SENSOR_RATE_POWERING_OFF
        \<and> currentRate s \<noteq> SENSOR_RATE_POWERING_ON \<and> currentRate s \<noteq> SENSOR_RATE_FW_UPLOADING
        \<and> \<not> (r > SENSOR_RATE_OFF \<or> l < SENSOR_LATENCY_INVALID) \<longrightarrow>
      sensorReconfig drv s r l =
        (if drv (callInfo s) (CallPower False)
         then s\<lparr>currentRate := SENSOR_RATE_POWERING_OFF, currentLatency := SENSOR_LATENCY_INVALID\<rparr>
         else s,
         [(callInfo s, CallPower False)]))"
  unfolding sensorReconfig_def sensorCallFuncPower_def sensorCallFuncSetRate_def
  by (simp add: sentinels)

theorem sensorReconfig_ladder_witness:
  "sensorReconfig (\<lambda>_ _. True) (exampleSensor 5 7) 5 7 = (exampleSensor 5 7, [])
   \<and> sensorReconfig (\<lambda>_ _. True) (exampleSensor SENSOR_RATE_OFF 7) 5 7 =
       (exampleSensor SENSOR_RATE_POWERING_ON SENSOR_LATENCY_INVALID, [(0, CallPower True)])
   \<and> sensorReconfig (\<lambda>_ _. False) (exampleSensor SENSOR_RATE_OFF 7) 5 7 =
       (exampleSensor SENSOR_RATE_OFF 7, [(0, CallPower True)])
   \<and> sensorReconfig (\<lambda>_ _. False) (exampleSensor SENSOR_RATE_POWERING_OFF 7) SENSOR_RATE_OFF 7 =
       (exampleSensor SENSOR_RATE_POWERING_ON SENSOR_LATENCY_INVALID, [])
   \<and> sensorReconfig (\<lambda>_ _. True) (exampleSensor SENSOR_RATE_FW_UPLOADING 7) 5 7 =
       (exampleSensor SENSOR_RATE_FW_UPLOADING 7, [])
   \<and> sensorReconfig (\<lambda>_ _. False) (exampleSensor 5 7) 10 7 =
       (exampleSensor 5 7, [(0, CallSetRate 10 7)])
   \<and> sensorReconfig (\<lambda>_ _. True) (exampleSensor 5 7) SENSOR_RATE_OFF SENSOR_LATENCY_INVALID =
       (exampleSensor SENSOR_RATE_POWERING_OFF SENSOR_LATENCY_INVALID, [(0, CallPower False)])"
  using sensorReconfig_ladder [of "exampleSensor 5 7" 5 7 "\<lambda>_ _. True"]
        sensorReconfig_ladder [of "exampleSensor SENSOR_RATE_OFF 7" 5 7 "\<lambda>_ _. True"]
        sensorReconfig_ladder [of "exampleSensor SENSOR_RATE_OFF 7" 5 7 "\<lambda>_ _. False"]
        sensorReconfig_ladder [of "exampleSensor SENSOR_RATE_POWERING_OFF 7" SENSOR_RATE_OFF 7 "\<lambda>_ _. False"]
        sensorReconfig_ladder [of "exampleSensor SENSOR_RATE_FW_UPLOADING 7" 5 7 "\<lambda>_ _. True"]
        sensorReconfig_ladder [of "exampleSensor 5 7" 10 7 "\<lambda>_ _. False"]
        sensorReconfig_ladder [of "exampleSensor 5 7" SENSOR_RATE_OFF SENSOR_LATENCY_INVALID "\<lambda>_ _. True"]
  by (simp add: exampleSensor_def sentinels)

section \<open>Who writes \<open>currentRate\<close>\<close>

text \<open>
  C9. Whatever the slot, the target and the binding's answer, \<open>sensorReconfig\<close> leaves
  the slot as it was, or stores \<open>POWERING-ON\<close> with latency \<open>INVALID\<close>, or stores
  \<open>POWERING-OFF\<close> with latency \<open>INVALID\<close>; no other value is ever written to
  \<open>currentRate\<close>, and no other field is touched. Nor does a concrete rate come from any
  other writer than the firmware-state-changed and rate-changed handlers: every slot
  keeps its \<open>currentRate\<close> or gets \<open>POWERING-ON\<close> or \<open>POWERING-OFF\<close> in \<open>sensorRequest\<close>,
  \<open>sensorRequestRateChange\<close> and \<open>sensorRelease\<close>; keeps it in \<open>sensorTriggerOndemand\<close>,
  \<open>sensorFlush\<close> and \<open>sensorUnregister\<close>; keeps it or gets \<open>OFF\<close> in \<open>sensorRegisterEx\<close>; and
  keeps it or gets \<open>OFF\<close> or \<open>FW-UPLOADING\<close> in the power-state-changed handler.
\<close>

theorem concrete_rates_only_from_handlers:
  "(fst (sensorReconfig drv s newHwRate newHwLatency) = s
    \<or> fst (sensorReconfig drv s newHwRate newHwLatency) =
        s\<lparr>currentRate := SENSOR_RATE_POWERING_ON, currentLatency := SENSOR_LATENCY_INVALID\<rparr>
    \<or> fst (sensorReconfig drv s newHwRate newHwLatency) =
        s\<lparr>currentRate := SENSOR_RATE_POWERING_OFF, currentLatency := SENSOR_LATENCY_INVALID\<rparr>)
   \<and> (sensorRequest k drv cell st c h r l = Some (st', b) \<longrightarrow>
        currentRatesStep [SENSOR_RATE_POWERING_ON, SENSOR_RATE_POWERING_OFF] st st')
   \<and> (sensorRequestRateChange k drv st c h r l = Some (st', b) \<longrightarrow>
        currentRatesStep [SENSOR_RATE_POWERING_ON, SENSOR_RATE_POWERING_OFF] st st')
   \<and> (sensorRelease k drv st c h = Some (st', b) \<longrightarrow>
        currentRatesStep [SENSOR_RATE_POWERING_ON, SENSOR_RATE_POWERING_OFF] st st')
   \<and> (sensorTriggerOndemand drv st c h = (st', b) \<longrightarrow> currentRatesStep [] st st')
   \<and> (sensorFlush drv st h = (st', b) \<longrightarrow> currentRatesStep [] st st')
   \<and> (sensorUnregister st h = (st', b) \<longrightarrow> currentRatesStep [] st st')
   \<and> (sensorRegisterEx st info ci found = Some (st', h') \<longrightarrow>
        currentRatesStep [SENSOR_RATE_OFF] st st')
   \<and> currentRatesStep [SENSOR_RATE_OFF, SENSOR_RATE_FW_UPLOADING] st
        (sensorInternalPowerStateChanged drv st evt)"
proof (intro conjI impI)
  show "fst (sensorReconfig drv s newHwRate newHwLatency) = s
    \<or> fst (sensorReconfig drv s newHwRate newHwLatency) =
        s\<lparr>currentRate := SENSOR_RATE_POWERING_ON, currentLatency := SENSOR_LATENCY_INVALID\<rparr>
    \<or> fst (sensorReconfig drv s newHwRate newHwLatency) =
        s\<lparr>currentRate := SENSOR_RATE_POWERING_OFF, currentLatency := SENSOR_LATENCY_INVALID\<rparr>"
    by (simp add: sensorReconfig_def sensorCallFuncPower_def sensorCallFuncSetRate_def)
qed (erule step_request step_rateChange step_release step_trigger step_flush step_unregister
       step_register | rule step_powerEvt)+


theorem concrete_rates_only_from_handlers_witness:
  "(\<exists>st'. sensorRegisterEx (sensorsInit exampleH) exampleInfo 0 (Some 0) = Some (st', 1)
        \<and> currentRatesStep [SENSOR_RATE_OFF] (sensorsInit exampleH) st')
   \<and> (\<exists>st'. sensorRequest exampleH (\<lambda>_ _. True) (Some 0)
          (exampleState (exampleSensor SENSOR_RATE_OFF SENSOR_LATENCY_INVALID) [])
          7 1 5 SENSOR_LATENCY_INVALID = Some (st', True)
        \<and> currentRatesStep [SENSOR_RATE_POWERING_ON, SENSOR_RATE_POWERING_OFF]
          (exampleState (exampleSensor SENSOR_RATE_OFF SENSOR_LATENCY_INVALID) []) st'
        \<and> sensorGetCurRate st' 1 = SENSOR_RATE_POWERING_ON)
   \<and> (\<exists>st'. sensorRequestRateChange exampleH (\<lambda>_ _. True)
          (exampleState (exampleSensor 5 0) [Some (exampleReq 7 5)]) 7 1 10 0 = Some (st', True)
        \<and> currentRatesStep [SENSOR_RATE_POWERING_ON, SENSOR_RATE_POWERING_OFF]
          (exampleState (exampleSensor 5 0) [Some (exampleReq 7 5)]) st'
        \<and> sensorGetCurRate st' 1 = 5)
   \<and> (\<exists>st'. sensorRelease exampleH (\<lambda>_ _. True)
          (exampleState (exampleSensor 5 0) [Some (exampleReq 7 5)]) 7 1 = Some (st', True)
        \<and> currentRatesStep [SENSOR_RATE_POWERING_ON, SENSOR_RATE_POWERING_OFF]
          (exampleState (exampleSensor 5 0) [Some (exampleReq 7 5)]) st'
        \<and> sensorGetCurRate st' 1 = SENSOR_RATE_POWERING_OFF)
   \<and> (\<exists>st'. sensorTriggerOndemand (\<lambda>_ _. True)
          (exampleState (exampleSensor 5 0) [Some (exampleReq 7 5)]) 7 1 = (st', True)
        \<and> currentRatesStep [] (exampleState (exampleSensor 5 0) [Some (exampleReq 7 5)]) st')
   \<and> (\<exists>st'. sensorFlush (\<lambda>_ _. True)
          (exampleState (exampleSensor 5 0) [Some (exampleReq 7 5)]) 1 = (st', True)
        \<and> currentRatesStep [] (exampleState (exampleSensor 5 0) [Some (exampleReq 7 5)]) st')
   \<and> (\<exists>st'. sensorUnregister
          (exampleState (exampleSensor 5 0) [Some (exampleReq 7 5)]) 1 = (st', True)
        \<and> currentRatesStep [] (exampleState (exampleSensor 5 0) [Some (exampleReq 7 5)]) st')"
proof -
  let ?st1 = "exampleState (exampleSensor SENSOR_RATE_OFF SENSOR_LATENCY_INVALID) []"
  let ?st0 = "exampleState (exampleSensor 5 0) [Some (exampleReq 7 5)]"
  note claim = concrete_rates_only_from_handlers
  have reg: "currentRatesStep [SENSOR_RATE_OFF] (sensorsInit exampleH) ?st1"
    using claim [where st = "sensorsInit exampleH" and st' = ?st1 and info = exampleInfo
            and ci = 0 and found = "Some 0" and h' = 1] example_registered
    by blast
  have "\<exists>st'. sensorRequest exampleH (\<lambda>_ _. True) (Some 0) ?st1 7 1 5 SENSOR_LATENCY_INVALID
                 = Some (st', True)
          \<and> sensorGetCurRate st' 1 = SENSOR_RATE_POWERING_ON"
    by (simp add: sensorRequest_def sensorAddRequestor_def sensorCalcHwRate_def
          sensorCalcHwRate_init_def sensorCalcHwLatency_def sensorReconfig_def
          sensorCallFuncPower_def sensorGetCurRate_def examples sentinels)
  then obtain stR where
    r1: "sensorRequest exampleH (\<lambda>_ _. True) (Some 0) ?st1 7 1 5 SENSOR_LATENCY_INVALID
           = Some (stR, True)"
    and r2: "sensorGetCurRate stR 1 = SENSOR_RATE_POWERING_ON" by blast
  have r3: "currentRatesStep [SENSOR_RATE_POWERING_ON, SENSOR_RATE_POWERING_OFF] ?st1 stR"
    using claim [where k = exampleH and drv = "\<lambda>_ _. True" and cell = "Some 0" and st = ?st1
            and c = 7 and h = 1 and r = 5 and l = SENSOR_LATENCY_INVALID and st' = stR
            and b = True] r1
    by blast
  have "\<exists>st'. sensorRequestRateChange exampleH (\<lambda>_ _. True) ?st0 7 1 10 0 = Some (st', True)
          \<and> sensorGetCurRate st' 1 = 5"
    by (simp add: sensorRequestRateChange_def sensorCalcHwRate_def sensorCalcHwRate_init_def
          sensorCalcHwLatency_def sensorReconfig_def sensorCallFuncSetRate_def
          sensorGetCurRate_def examples sentinels)
  then obtain stC where
    c1: "sensorRequestRateChange exampleH (\<lambda>_ _. True) ?st0 7 1 10 0 = Some (stC, True)"
    and c2: "sensorGetCurRate stC 1 = 5" by blast
  have c3: "currentRatesStep [SENSOR_RATE_POWERING_ON, SENSOR_RATE_POWERING_OFF] ?st0 stC"
    using claim [where k = exampleH and drv = "\<lambda>_ _. True" and st = ?st0
            and c = 7 and h = 1 and r = 10 and l = 0 and st' = stC and b = True] c1
    by blast
  have "\<exists>st'. sensorRelease exampleH (\<lambda>_ _. True) ?st0 7 1 = Some (st', True)
          \<and> sensorGetCurRate st' 1 = SENSOR_RATE_POWERING_OFF"
    by (simp add: sensorRelease_def sensorCalcHwRate_def sensorCalcHwRate_init_def
          sensorCalcHwLatency_def sensorReconfig_def sensorCallFuncPower_def
          sensorGetCurRate_def examples sentinels)
  then obtain stL where
    l1: "sensorRelease exampleH (\<lambda>_ _. True) ?st0 7 1 = Some (stL, True)"
    and l2: "sensorGetCurRate stL 1 = SENSOR_RATE_POWERING_OFF" by blast
  have l3: "currentRatesStep [SENSOR_RATE_POWERING_ON, SENSOR_RATE_POWERING_OFF] ?st0 stL"
    using claim [where k = exampleH and drv = "\<lambda>_ _. True" and st = ?st0
            and c = 7 and h = 1 and st' = stL and b = True] l1
    by blast
  have "\<exists>st'. sensorTriggerOndemand (\<lambda>_ _. True) ?st0 7 1 = (st', True)"
    by (simp add: sensorTriggerOndemand_def sensorCallFuncTrigger_def examples)
  then obtain stT where t1: "sensorTriggerOndemand (\<lambda>_ _. True) ?st0 7 1 = (stT, True)" ..
  have t3: "currentRatesStep [] ?st0 stT"
    using claim [where drv = "\<lambda>_ _. True" and st = ?st0 and c = 7 and h = 1 and st' = stT
            and b = True] t1
    by blast
  have "\<exists>st'. sensorFlush (\<lambda>_ _. True) ?st0 1 = (st', True)"
    by (simp add: sensorFlush_def sensorCallFuncFlush_def examples)
  then obtain stF where f1: "sensorFlush (\<lambda>_ _. True) ?st0 1 = (stF, True)" ..
  have f3: "currentRatesStep [] ?st0 stF"
    using claim [where drv = "\<lambda>_ _. True" and st = ?st0 and h = 1 and st' = stF
            and b = True] f1
    by blast
  have "\<exists>st'. sensorUnregister ?st0 1 = (st', True)"
    by (simp add: sensorUnregister_def examples)
  then obtain stU where u1: "sensorUnregister ?st0 1 = (stU, True)" ..
  have u3: "currentRatesStep [] ?st0 stU"
    using claim [where st = ?st0 and h = 1 and st' = stU and b = True] u1
    by blast
  from example_registered reg r1 r2 r3 c1 c2 c3 l1 l2 l3 t1 t3 f1 f3 u1 u3
  show ?thesis by blast
qed

section \<open>Rejected calls\<close>

text \<open>
  C4. When the handle resolves to a slot and the precheck (\<open>sensorCalcHwRate\<close> with the new
  rate as extra rate and, for \<open>sensorRequestRateChange\<close>, the client's old rate as removed
  rate) yields \<open>IMPOSSIBLE\<close>, \<open>sensorRequest\<close> and \<open>sensorRequestRateChange\<close> return false
  and the state, the request table included, is the one before the call.
\<close>

theorem precheck_impossible_rejects:
  "(sensorFindByHandle (mSensors st) h = Some i
      \<and> sensorCalcHwRate k (mCliSensMatrix st) (mSensors st ! i) r 0 = Some SENSOR_RATE_IMPOSSIBLE
    \<longrightarrow> sensorRequest k drv cell st c h r l = Some (st, False))
   \<and> (sensorFindByHandle (mSensors st) h = Some i
      \<and> sensorGetCurRequestorRate (mCliSensMatrix st) h c = Some (oldRate, oldLatency)
      \<and> sensorCalcHwRate k (mCliSensMatrix st) (mSensors st ! i) r oldRate
          = Some SENSOR_RATE_IMPOSSIBLE
    \<longrightarrow> sensorRequestRateChange k drv st c h r l = Some (st, False))"
  by (simp add: sensorRequest_def sensorRequestRateChange_def)

theorem precheck_impossible_rejects_witness:
  "sensorRequest exampleH (\<lambda>_ _. True) (Some 1)
     (exampleState (exampleSensor 5 0) [Some (exampleReq 7 5)]) 8 1 100 0
     = Some (exampleState (exampleSensor 5 0) [Some (exampleReq 7 5)], False)
   \<and> sensorRequestRateChange exampleH (\<lambda>_ _. True)
     (exampleState (exampleSensor 5 0) [Some (exampleReq 7 5)]) 7 1 100 0
     = Some (exampleState (exampleSensor 5 0) [Some (exampleReq 7 5)], False)"
proof -
  let ?st = "exampleState (exampleSensor 5 0) [Some (exampleReq 7 5)]"
  have f: "sensorFindByHandle (mSensors ?st) 1 = Some 0"
    by (simp add: examples)
  have g: "sensorGetCurRequestorRate (mCliSensMatrix ?st) 1 7 = Some (5, SENSOR_LATENCY_INVALID)"
    by (simp add: examples)
  have p1: "sensorCalcHwRate exampleH (mCliSensMatrix ?st) (mSensors ?st ! 0) 100 0
              = Some SENSOR_RATE_IMPOSSIBLE"
    by (simp add: examples sensorCalcHwRate_def sensorCalcHwRate_init_def sentinels)
  have p2: "sensorCalcHwRate exampleH (mCliSensMatrix ?st) (mSensors ?st ! 0) 100 5
              = Some SENSOR_RATE_IMPOSSIBLE"
    by (simp add: examples sensorCalcHwRate_def sensorCalcHwRate_init_def sentinels)
  show ?thesis
    using precheck_impossible_rejects [where st = ?st and h = 1 and i = 0 and k = exampleH
            and r = 100 and drv = "\<lambda>_ _. True" and cell = "Some 1" and c = 8 and l = 0]
          precheck_impossible_rejects [where st = ?st and h = 1 and i = 0 and k = exampleH
            and r = 100 and drv = "\<lambda>_ _. True" and c = 7 and l = 0 and oldRate = 5
            and oldLatency = SENSOR_LATENCY_INVALID]
          f g p1 p2
    by blast
qed

text \<open>
  C10. Whenever \<open>sensorRequest\<close> returns false, the state after the call is the state
  before it: the request table, every sensor slot and the log of binding calls are
  unchanged. It returns false only when the handle does not resolve, when the precheck
  yields \<open>IMPOSSIBLE\<close>, or when the allocator returns \<open>NULL\<close>.
\<close>

theorem sensorRequest_false_no_effect:
  "sensorRequest k drv cell st c h r l = Some (st', False) \<Longrightarrow>
   st' = st
   \<and> (sensorFindByHandle (mSensors st) h = None
      \<or> (\<exists>i. sensorFindByHandle (mSensors st) h = Some i
            \<and> sensorCalcHwRate k (mCliSensMatrix st) (mSensors st ! i) r 0
                = Some SENSOR_RATE_IMPOSSIBLE)
      \<or> cell = None)"
  by (auto simp: sensorRequest_def sensorAddRequestor_def
          split: option.splits if_splits prod.splits)

theorem sensorRequest_false_no_effect_witness:
  "sensorRequest exampleH (\<lambda>_ _. True) (Some 1)
     (exampleState (exampleSensor 5 0) [Some (exampleReq 7 5)]) 8 9 5 0
     = Some (exampleState (exampleSensor 5 0) [Some (exampleReq 7 5)], False)
   \<and> sensorRequest exampleH (\<lambda>_ _. True) (Some 1)
     (exampleState (exampleSensor 5 0) [Some (exampleReq 7 5)]) 8 1 100 0
     = Some (exampleState (exampleSensor 5 0) [Some (exampleReq 7 5)], False)
   \<and> sensorRequest exampleH (\<lambda>_ _. True) None
     (exampleState (exampleSensor 5 0) (replicate 64 (Some (exampleReq 7 5)))) 8 1 5 0
     = Some (exampleState (exampleSensor 5 0) (replicate 64 (Some (exampleReq 7 5))), False)"
proof -
  let ?st = "exampleState (exampleSensor 5 0) [Some (exampleReq 7 5)]"
  let ?full = "exampleState (exampleSensor 5 0) (replicate 64 (Some (exampleReq 7 5)))"
  have a: "\<exists>st'. sensorRequest exampleH (\<lambda>_ _. True) (Some 1) ?st 8 9 5 0 = Some (st', False)"
    by (simp add: sensorRequest_def examples)
  have b: "\<exists>st'. sensorRequest exampleH (\<lambda>_ _. True) (Some 1) ?st 8 1 100 0 = Some (st', False)"
    by (simp add: sensorRequest_def examples sensorCalcHwRate_def sensorCalcHwRate_init_def
          sentinels)
  have loop: "sensorCalcHwRate_loop exampleH 1 (replicate n (Some (exampleReq 7 5))) v =
                (if n = 0 then v
                 else v\<lparr>haveUsers := True, highestReq := max 5 (highestReq v),
                        removedRate := removedRate v\<rparr>)"
    if "removedRate v = 0" for n v
    using that by (induction n arbitrary: v) (auto simp: examples sentinels max_def)
  have c: "\<exists>st'. sensorRequest exampleH (\<lambda>_ _. True) None ?full 8 1 5 0 = Some (st', False)"
    by (simp add: sensorRequest_def sensorAddRequestor_def exampleState_def exampleSensor_def
          exampleInfo_def MAX_CLI_SENS_MATRIX_SZ_def sensorCalcHwRate_def
          sensorCalcHwRate_init_def loop sentinels)
  show ?thesis
    using a b c sensorRequest_false_no_effect by metis
qed

section \<open>The removed rate\<close>

text \<open>
  C6. When the removed rate \<open>r\<close> is not \<open>OFF\<close> and the table holds at least two live
  requests of the sensor with rate \<open>r\<close>, the table splits at the first of them. No request
  before it has rate \<open>r\<close>, and the loop reaches it with the removed rate still \<open>r\<close>. It
  is discarded: the loop's variables after it are those before it, but for the removed
  rate, which is \<open>OFF\<close> from then on. Each of the other requests with rate \<open>r\<close>, one
  fewer than before, lies after it and is counted: the loop's variables after such a
  request are those before it with the contribution of one request of rate \<open>r\<close> added.
  So the final aggregates are those of the requests before and after the first one:
  there are users, \<open>ON-CHANGE\<close> is seen when \<open>r\<close> is \<open>ON-CHANGE\<close>, and the highest request
  is at least \<open>r\<close> when \<open>r\<close> is a concrete rate. \<open>ON-DEMAND\<close> and \<open>ON-CHANGE\<close> are taken to be
  different.
\<close>

theorem removedRate_discards_first_only:
  assumes distinct: "SENSOR_RATE_ONDEMAND k \<noteq> SENSOR_RATE_ONCHANGE k"
    and nonzero: "r \<noteq> SENSOR_RATE_OFF"
    and twice: "2 \<le> count_list (liveRates (handle s) pool) r"
  shows "\<exists>pre q post.
           pool = pre @ Some q # post \<and> req_handle q = handle s \<and> req_rate q = r
           \<and> r \<notin> set (liveRates (handle s) pre)
           \<and> count_list (liveRates (handle s) post) r
               = count_list (liveRates (handle s) pool) r - 1
           \<and> removedRate (sensorCalcHwRate_loop k (handle s) pre
                 (sensorCalcHwRate_init k extraRate r)) = r
           \<and> sensorCalcHwRate_loop k (handle s) (pre @ [Some q])
                 (sensorCalcHwRate_init k extraRate r)
               = (sensorCalcHwRate_loop k (handle s) pre (sensorCalcHwRate_init k extraRate r))
                   \<lparr>removedRate := SENSOR_RATE_OFF\<rparr>
           \<and> (\<forall>p1 q' p2.
                 post = p1 @ Some q' # p2 \<and> req_handle q' = handle s \<and> req_rate q' = r \<longrightarrow>
                 sensorCalcHwRate_loop k (handle s) (pre @ Some q # p1 @ [Some q'])
                     (sensorCalcHwRate_init k extraRate r)
                   = contributeRate k r
                       (sensorCalcHwRate_loop k (handle s) (pre @ Some q # p1)
                          (sensorCalcHwRate_init k extraRate r)))
           \<and> sensorCalcHwRate_loop k (handle s) pool (sensorCalcHwRate_init k extraRate r)
               = sensorCalcHwRate_loop k (handle s) post
                   ((sensorCalcHwRate_loop k (handle s) pre
                       (sensorCalcHwRate_init k extraRate r))
                    \<lparr>removedRate := SENSOR_RATE_OFF\<rparr>)
           \<and> haveUsers (sensorCalcHwRate_loop k (handle s) pool
                 (sensorCalcHwRate_init k extraRate r))
           \<and> (r = SENSOR_RATE_ONCHANGE k \<and> r \<noteq> SENSOR_RATE_ONDEMAND k \<longrightarrow>
                haveOnChange (sensorCalcHwRate_loop k (handle s) pool
                  (sensorCalcHwRate_init k extraRate r)))
           \<and> (r \<noteq> SENSOR_RATE_ONCHANGE k \<and> r \<noteq> SENSOR_RATE_ONDEMAND k \<longrightarrow>
                r \<le> highestReq (sensorCalcHwRate_loop k (handle s) pool
                  (sensorCalcHwRate_init k extraRate r)))"
proof -
  let ?h = "handle s"
  let ?v0 = "sensorCalcHwRate_init k extraRate r"
  from twice have "count_list (liveRates ?h pool) r \<noteq> 0" by simp
  then have "r \<in> set (liveRates ?h pool)"
    by (simp add: count_list_0_iff)
  from first_live_rate [OF this] obtain pre q post where
    split: "pool = pre @ Some q # post" and q: "req_handle q = ?h" "req_rate q = r"
    and first: "r \<notin> set (liveRates ?h pre)" by blast
  let ?v1 = "sensorCalcHwRate_loop k ?h pre ?v0"
  let ?v2 = "?v1\<lparr>removedRate := SENSOR_RATE_OFF\<rparr>"
  have rem: "removedRate ?v1 = r"
    using first by (simp add: loop_removedRate sensorCalcHwRate_init_def)
  have skipped: "sensorCalcHwRate_loop k ?h (pre @ [Some q]) ?v0 = ?v2"
    using q rem by (simp add: rateLoop_append)
  have step: "sensorCalcHwRate_loop k ?h pool ?v0 = sensorCalcHwRate_loop k ?h post ?v2"
    using q rem by (simp add: split rateLoop_append)
  have cnt: "count_list (liveRates ?h post) r = count_list (liveRates ?h pool) r - 1"
    using first q by (simp add: split liveRates_append) (simp add: liveRates_def)
  have later: "sensorCalcHwRate_loop k ?h (pre @ Some q # p1 @ [Some q']) ?v0
                 = contributeRate k r (sensorCalcHwRate_loop k ?h (pre @ Some q # p1) ?v0)"
    if "req_handle q' = ?h" "req_rate q' = r" for p1 q'
  proof -
    let ?w = "sensorCalcHwRate_loop k ?h (pre @ Some q # p1) ?v0"
    have "r \<in> set (liveRates ?h (pre @ Some q # p1))"
      using q by (simp add: liveRates_append) (simp add: liveRates_def)
    then have "removedRate ?w = SENSOR_RATE_OFF"
      by (simp add: loop_removedRate sensorCalcHwRate_init_def)
    with nonzero that have "sensorCalcHwRate_loop k ?h [Some q'] ?w = contributeRate k r ?w"
      using rateLoop_counted_request [OF distinct that(1), of ?w] by simp
    moreover have "sensorCalcHwRate_loop k ?h (pre @ Some q # p1 @ [Some q']) ?v0
                     = sensorCalcHwRate_loop k ?h [Some q'] ?w"
      using rateLoop_append [of k ?h "pre @ Some q # p1" "[Some q']" ?v0] by simp
    ultimately show ?thesis by simp
  qed
  from twice cnt have "count_list (liveRates ?h post) r \<noteq> 0" by simp
  then have "r \<in> set (liveRates ?h post)"
    by (simp add: count_list_0_iff)
  with nonzero have counted: "r \<in> set (countedRates (removedRate ?v2) (liveRates ?h post))"
    by (simp add: countedRates_OFF)
  have users: "haveUsers (sensorCalcHwRate_loop k ?h pool ?v0)"
    unfolding step loop_haveUsers using counted by auto
  have onch: "haveOnChange (sensorCalcHwRate_loop k ?h pool ?v0)"
    if "r = SENSOR_RATE_ONCHANGE k" "r \<noteq> SENSOR_RATE_ONDEMAND k"
    unfolding step using that counted loop_haveOnChange [of k ?h post ?v2] by auto
  have high: "r \<le> highestReq (sensorCalcHwRate_loop k ?h pool ?v0)"
    if "r \<noteq> SENSOR_RATE_ONCHANGE k" "r \<noteq> SENSOR_RATE_ONDEMAND k"
    unfolding step loop_highestReq
    using that counted nonzero by (intro fold_max_ge) (simp add: concreteRates_def)
  from split q first cnt rem skipped step users onch high later show ?thesis by blast
qed


theorem removedRate_discards_first_only_witness:
  "SENSOR_RATE_ONDEMAND exampleH \<noteq> SENSOR_RATE_ONCHANGE exampleH
   \<and> (5::u32) \<noteq> SENSOR_RATE_OFF
   \<and> 2 \<le> count_list (liveRates (handle (exampleSensor 0 0))
              [Some (exampleReq 7 5), None, Some (exampleReq 8 5)]) 5
   \<and> (\<exists>pre q post.
         [Some (exampleReq 7 5), None, Some (exampleReq 8 5)] = pre @ Some q # post
         \<and> (5::u32) \<notin> set (liveRates (handle (exampleSensor 0 0)) pre)
         \<and> sensorCalcHwRate_loop exampleH (handle (exampleSensor 0 0)) (pre @ [Some q])
               (sensorCalcHwRate_init exampleH 0 5)
             = (sensorCalcHwRate_loop exampleH (handle (exampleSensor 0 0)) pre
                  (sensorCalcHwRate_init exampleH 0 5))\<lparr>removedRate := SENSOR_RATE_OFF\<rparr>)
   \<and> haveUsers (sensorCalcHwRate_loop exampleH (handle (exampleSensor 0 0))
         [Some (exampleReq 7 5), None, Some (exampleReq 8 5)]
         (sensorCalcHwRate_init exampleH 0 5))
   \<and> 5 \<le> highestReq (sensorCalcHwRate_loop exampleH (handle (exampleSensor 0 0))
         [Some (exampleReq 7 5), None, Some (exampleReq 8 5)]
         (sensorCalcHwRate_init exampleH 0 5))
   \<and> sensorCalcHwRate exampleH [Some (exampleReq 7 5), None, Some (exampleReq 8 5)]
         (exampleSensor 0 0) 0 5 = Some 5
   \<and> sensorCalcHwRate exampleH [Some (exampleReq 7 5), None]
         (exampleSensor 0 0) 0 5 = Some SENSOR_RATE_OFF"
proof -
  let ?pool = "[Some (exampleReq 7 5), None, Some (exampleReq 8 5)]"
  have o: "SENSOR_RATE_ONDEMAND exampleH \<noteq> SENSOR_RATE_ONCHANGE exampleH"
    by (simp add: examples)
  have a: "(5::u32) \<noteq> SENSOR_RATE_OFF"
    by (simp add: sentinels)
  have b: "2 \<le> count_list (liveRates (handle (exampleSensor 0 0)) ?pool) 5"
    by (simp add: liveRates_def examples)
  have c: "(5::u32) \<noteq> SENSOR_RATE_ONCHANGE exampleH \<and> (5::u32) \<noteq> SENSOR_RATE_ONDEMAND exampleH"
    by (simp add: examples)
  have d: "sensorCalcHwRate exampleH ?pool (exampleSensor 0 0) 0 5 = Some 5"
    by (simp add: sensorCalcHwRate_def sensorCalcHwRate_init_def examples sentinels)
  have e: "sensorCalcHwRate exampleH [Some (exampleReq 7 5), None] (exampleSensor 0 0) 0 5
             = Some SENSOR_RATE_OFF"
    by (simp add: sensorCalcHwRate_def sensorCalcHwRate_init_def examples sentinels)
  from removedRate_discards_first_only [OF o a b, where extraRate = 0] c
  have "(\<exists>pre q post.
         ?pool = pre @ Some q # post
         \<and> (5::u32) \<notin> set (liveRates (handle (exampleSensor 0 0)) pre)
         \<and> sensorCalcHwRate_loop exampleH (handle (exampleSensor 0 0)) (pre @ [Some q])
               (sensorCalcHwRate_init exampleH 0 5)
             = (sensorCalcHwRate_loop exampleH (handle (exampleSensor 0 0)) pre
                  (sensorCalcHwRate_init exampleH 0 5))\<lparr>removedRate := SENSOR_RATE_OFF\<rparr>)
        \<and> haveUsers (sensorCalcHwRate_loop exampleH (handle (exampleSensor 0 0)) ?pool
          (sensorCalcHwRate_init exampleH 0 5))
        \<and> 5 \<le> highestReq (sensorCalcHwRate_loop exampleH (handle (exampleSensor 0 0)) ?pool
          (sensorCalcHwRate_init exampleH 0 5))"
    by blast
  with o a b d e show ?thesis by blast
qed

section \<open>Request, then release\<close>

text \<open>
  C7. When the handle resolves to a slot, the client has no request for it in the table
  and the allocator hands out a free cell, a successful \<open>sensorRequest\<close> followed by
  \<open>sensorRelease\<close> of the same client and sensor succeeds and leaves the request table
  as it was before the request: the client has no request for the sensor again, and
  every other entry is as before.
\<close>

theorem request_then_release_restores_table:
  assumes resolved: "sensorFindByHandle (mSensors st) h = Some i"
    and fresh: "sensorGetCurRequestorRate (mCliSensMatrix st) h c = None"
    and alloc: "slabAllocatorAlloc_ok (mCliSensMatrix st) cell"
    and requested: "sensorRequest k drv cell st c h r l = Some (st1, True)"
  shows "\<exists>st2. sensorRelease k drv' st1 c h = Some (st2, True)
           \<and> mCliSensMatrix st2 = mCliSensMatrix st
           \<and> sensorGetCurRequestorRate (mCliSensMatrix st2) h c = None"
proof -
  let ?s = "mSensors st ! i"
  let ?pool = "mCliSensMatrix st"
  from find_Some [OF resolved] have i: "i < length (mSensors st)" and hs: "handle ?s = h"
    by auto
  from requested resolved obtain x j where
    calc: "sensorCalcHwRate k ?pool ?s r 0 = Some x"
    and cell: "cell = Some j"
    by (auto simp: sensorRequest_def sensorAddRequestor_def
          split: option.splits if_splits prod.splits)
  let ?new = "\<lparr>req_handle = h, req_clientId = c, req_latency = l, req_rate = r\<rparr>"
  let ?pool1 = "?pool[j := Some ?new]"
  let ?s1 = "fst (sensorReconfig drv ?s x (sensorCalcHwLatency ?pool1 ?s))"
  from requested resolved calc cell have st1:
    "mSensors st1 = (mSensors st)[i := ?s1]" "mCliSensMatrix st1 = ?pool1"
    by (auto simp: sensorRequest_def sensorAddRequestor_def
          split: option.splits if_splits prod.splits)
  from alloc cell have free: "j < length ?pool" "?pool ! j = None"
    by (simp_all add: slabAllocatorAlloc_ok_def)
  have find1: "sensorFindByHandle (mSensors st1) h = Some i"
    unfolding st1 using resolved hs by (intro find_update_same) (simp_all add: reconfig_keeps)
  have slot1: "mSensors st1 ! i = ?s1"
    unfolding st1 using i by simp
  have del: "sensorDeleteRequestor (mCliSensMatrix st1) h c = Some ?pool"
    unfolding st1 using free fresh by (rule delete_after_add)
  from calc_without_extra_defined [OF calc, of ?s1] obtain y where
    calc1: "sensorCalcHwRate k ?pool ?s1 0 0 = Some y"
    by (auto simp: reconfig_keeps)
  show ?thesis
    using find1 slot1 del calc1 fresh
    by (simp add: sensorRelease_def split: prod.splits)
qed


theorem request_then_release_restores_table_witness:
  "sensorFindByHandle
     (mSensors (exampleState (exampleSensor SENSOR_RATE_OFF 0) [Some (exampleReq 7 5)])) 1 = Some 0
   \<and> sensorGetCurRequestorRate
     (mCliSensMatrix (exampleState (exampleSensor SENSOR_RATE_OFF 0) [Some (exampleReq 7 5)])) 1 8
       = None
   \<and> slabAllocatorAlloc_ok
     (mCliSensMatrix (exampleState (exampleSensor SENSOR_RATE_OFF 0) [Some (exampleReq 7 5)]))
     (Some 1)
   \<and> (\<exists>st1 st2.
        sensorRequest exampleH (\<lambda>_ _. True) (Some 1)
          (exampleState (exampleSensor SENSOR_RATE_OFF 0) [Some (exampleReq 7 5)]) 8 1 10 0
          = Some (st1, True)
        \<and> sensorRelease exampleH (\<lambda>_ _. True) st1 8 1 = Some (st2, True)
        \<and> mCliSensMatrix st2
            = mCliSensMatrix (exampleState (exampleSensor SENSOR_RATE_OFF 0) [Some (exampleReq 7 5)]))"
proof -
  let ?st = "exampleState (exampleSensor SENSOR_RATE_OFF 0) [Some (exampleReq 7 5)]"
  have a: "sensorFindByHandle (mSensors ?st) 1 = Some 0"
    by (simp add: examples)
  have b: "sensorGetCurRequestorRate (mCliSensMatrix ?st) 1 8 = None"
    by (simp add: examples)
  have c: "slabAllocatorAlloc_ok (mCliSensMatrix ?st) (Some 1)"
    by (simp add: slabAllocatorAlloc_ok_def examples)
  have "\<exists>st1. sensorRequest exampleH (\<lambda>_ _. True) (Some 1) ?st 8 1 10 0 = Some (st1, True)"
    by (simp add: sensorRequest_def sensorAddRequestor_def sensorCalcHwRate_def
          sensorCalcHwRate_init_def examples sentinels split: prod.splits)
  then obtain st1 where
    d: "sensorRequest exampleH (\<lambda>_ _. True) (Some 1) ?st 8 1 10 0 = Some (st1, True)" ..
  from request_then_release_restores_table [OF a b c d, of "\<lambda>_ _. True"] d a b c
  show ?thesis by blast
qed

section \<open>Rate change against release and request\<close>

text \<open>
  C8, as amended. \<open>sensorRequestRateChange\<close> returns false when the client has no live
  request for the sensor. When it has one, for a registered sensor with a terminated
  \<open>supportedRates\<close>, with \<open>ON-DEMAND\<close> and \<open>ON-CHANGE\<close> different from \<open>IMPOSSIBLE\<close> and an
  allocator that hands out a free cell, the call succeeds exactly when the sequence
  \<open>sensorRelease\<close>, \<open>sensorRequest\<close> does, and when it succeeds the aggregator outputs
  \<open>sensorCalcHwRate(S, 0, 0)\<close> and \<open>sensorCalcHwLatency(S)\<close> after it are those after the
  sequence. Nothing is said of the outputs when both fail: the rejected rate change
  keeps the old request and the sequence has released it, so they may differ.
\<close>

theorem rateChange_agrees_with_release_request:
  "(sensorGetCurRequestorRate (mCliSensMatrix st) h c = None \<longrightarrow>
      sensorRequestRateChange k drv st c h r l = Some (st, False))
   \<and> (sensorFindByHandle (mSensors st) h = Some i
      \<and> si (mSensors st ! i) = Some info \<and> 0 \<in> set (supportedRates info)
      \<and> SENSOR_RATE_ONDEMAND k \<noteq> SENSOR_RATE_IMPOSSIBLE
      \<and> SENSOR_RATE_ONCHANGE k \<noteq> SENSOR_RATE_IMPOSSIBLE
      \<and> sensorGetCurRequestorRate (mCliSensMatrix st) h c = Some (oldRate, oldLatency)
      \<and> sensorDeleteRequestor (mCliSensMatrix st) h c = Some pool'
      \<and> slabAllocatorAlloc_ok pool' cell
      \<longrightarrow> (\<exists>stA stB b.
            sensorRequestRateChange k drv st c h r l = Some (stA, b)
            \<and> releaseThenRequest k drvRel drvReq cell st c h r l = Some (stB, b)
            \<and> (b \<longrightarrow> aggregatorOutputs k stA h = aggregatorOutputs k stB h)))"
proof (intro conjI impI)
  assume "sensorGetCurRequestorRate (mCliSensMatrix st) h c = None"
  then show "sensorRequestRateChange k drv st c h r l = Some (st, False)"
    by (simp add: sensorRequestRateChange_def split: option.splits)
next
  let ?pool = "mCliSensMatrix st" and ?s = "mSensors st ! i"
  let ?new = "\<lparr>req_handle = h, req_clientId = c, req_latency = l, req_rate = r\<rparr>"
  assume A: "sensorFindByHandle (mSensors st) h = Some i
      \<and> si (mSensors st ! i) = Some info \<and> 0 \<in> set (supportedRates info)
      \<and> SENSOR_RATE_ONDEMAND k \<noteq> SENSOR_RATE_IMPOSSIBLE
      \<and> SENSOR_RATE_ONCHANGE k \<noteq> SENSOR_RATE_IMPOSSIBLE
      \<and> sensorGetCurRequestorRate (mCliSensMatrix st) h c = Some (oldRate, oldLatency)
      \<and> sensorDeleteRequestor (mCliSensMatrix st) h c = Some pool'
      \<and> slabAllocatorAlloc_ok pool' cell"
  then have resolved: "sensorFindByHandle (mSensors st) h = Some i"
    and info: "si ?s = Some info" "0 \<in> set (supportedRates info)"
    and distinct: "SENSOR_RATE_ONDEMAND k \<noteq> SENSOR_RATE_IMPOSSIBLE"
                "SENSOR_RATE_ONCHANGE k \<noteq> SENSOR_RATE_IMPOSSIBLE"
    and prior: "sensorGetCurRequestorRate ?pool h c = Some (oldRate, oldLatency)"
    and deleted: "sensorDeleteRequestor ?pool h c = Some pool'"
    and alloc: "slabAllocatorAlloc_ok pool' cell"
    by simp_all
  from find_Some [OF resolved] have hs: "handle ?s = h" by simp
  from locate_request [OF prior, of r l] obtain j q where
    j: "j < length ?pool" "?pool ! j = Some q" and q: "req_handle q = h" "req_clientId q = c"
      "req_rate q = oldRate"
    and amend: "sensorAmendRequestor ?pool h c r l
                  = Some (?pool[j := Some (q\<lparr>req_rate := r, req_latency := l\<rparr>)])"
    and del: "sensorDeleteRequestor ?pool h c = Some (?pool[j := None])"
    by blast
  from q have q': "q\<lparr>req_rate := r, req_latency := l\<rparr> = ?new" by (cases q) simp
  from del deleted have pool': "pool' = ?pool[j := None]" by simp
  let ?poolA = "?pool[j := Some ?new]"
  from calc_defined [OF info] obtain x where
    x: "sensorCalcHwRate k ?pool ?s r oldRate = Some x" by blast
  from calc_defined [OF info] obtain y where
    y: "sensorCalcHwRate k pool' ?s 0 0 = Some y" by blast
  let ?s1 = "fst (sensorReconfig drvRel ?s y (sensorCalcHwLatency pool' ?s))"
  from release_success [OF resolved deleted y, of drvRel] obtain st1 where
    rel: "sensorRelease k drvRel st c h = Some (st1, True)"
    and st1: "mCliSensMatrix st1 = pool'" "mSensors st1 = (mSensors st)[i := ?s1]"
    by blast
  have find1: "sensorFindByHandle (mSensors st1) h = Some i"
    and slot1: "mSensors st1 ! i = ?s1"
    unfolding st1 using slot_after_reconfig [OF resolved] by simp_all
  have keep1: "handle ?s1 = handle ?s" "si ?s1 = si ?s"
    by (simp_all add: reconfig_keeps)
  have "si ?s1 = Some info" using info keep1 by simp
  from calc_defined [OF this info(2)] obtain z where
    z: "sensorCalcHwRate k pool' ?s1 r 0 = Some z" by blast
  have "highestReq (sensorCalcHwRate_loop k (handle ?s) ?pool (sensorCalcHwRate_init k r oldRate))
      = highestReq (sensorCalcHwRate_loop k (handle ?s) pool' (sensorCalcHwRate_init k r 0))"
    unfolding hs pool' using precheck_highestReq [OF j q(1)] q(3) by simp
  from calc_impossible_iff [OF distinct this]
  have "(x = SENSOR_RATE_IMPOSSIBLE) = (sensorCalcHwRate k pool' ?s r 0 = Some SENSOR_RATE_IMPOSSIBLE)"
    using x by simp
  also have "sensorCalcHwRate k pool' ?s r 0 = sensorCalcHwRate k pool' ?s1 r 0"
    using calc_cong [OF keep1] by simp
  finally have same: "(x = SENSOR_RATE_IMPOSSIBLE) = (z = SENSOR_RATE_IMPOSSIBLE)"
    using z by simp
  show "\<exists>stA stB b.
          sensorRequestRateChange k drv st c h r l = Some (stA, b)
          \<and> releaseThenRequest k drvRel drvReq cell st c h r l = Some (stB, b)
          \<and> (b \<longrightarrow> aggregatorOutputs k stA h = aggregatorOutputs k stB h)"
  proof (cases "x = SENSOR_RATE_IMPOSSIBLE")
    case True
    have a: "sensorRequestRateChange k drv st c h r l = Some (st, False)"
      using resolved prior x True by (simp add: sensorRequestRateChange_def)
    have "sensorRequest k drvReq cell st1 c h r l = Some (st1, False)"
      using find1 slot1 z True same st1(1) by (simp add: sensorRequest_def)
    with rel have b: "releaseThenRequest k drvRel drvReq cell st c h r l = Some (st1, False)"
      by (simp add: releaseThenRequest_def)
    from a b show ?thesis by blast
  next
    case False
    from rateChange_success [OF resolved prior x False amend [unfolded q'], of drv]
    obtain stA where
      a: "sensorRequestRateChange k drv st c h r l = Some (stA, True)"
      and stA: "mCliSensMatrix stA = ?poolA"
        "mSensors stA = (mSensors st)[i := fst (sensorReconfig drv ?s x
             (sensorCalcHwLatency ?poolA ?s))]"
      by blast
    from alloc j pool' obtain m where cell: "cell = Some m"
      and m: "m < length pool'" "pool' ! m = None"
      by (cases cell) (auto simp: slabAllocatorAlloc_ok_def list_all_length)
    from False same have "z \<noteq> SENSOR_RATE_IMPOSSIBLE" by simp
    from request_success [OF find1 z [folded slot1 st1(1)] this, of drvReq m c l]
    obtain stB where
      req: "sensorRequest k drvReq cell st1 c h r l = Some (stB, True)"
      and stB: "mCliSensMatrix stB = pool'[m := Some ?new]"
        "mSensors stB = (mSensors st1)[i := fst (sensorReconfig drvReq (mSensors st1 ! i) z
             (sensorCalcHwLatency (pool'[m := Some ?new]) (mSensors st1 ! i)))]"
      unfolding cell st1(1) by blast
    from rel req have b: "releaseThenRequest k drvRel drvReq cell st c h r l = Some (stB, True)"
      by (simp add: releaseThenRequest_def)
    have findA: "sensorFindByHandle (mSensors stA) h = Some i"
      and slotA: "si (mSensors stA ! i) = si ?s"
      unfolding stA using slot_after_reconfig [OF resolved] by (simp_all add: reconfig_keeps)
    have findB: "sensorFindByHandle (mSensors stB) h = Some i"
      and slotB: "si (mSensors stB ! i) = si ?s"
      unfolding stB using slot_after_reconfig [OF find1] slot1 keep1
      by (simp_all add: reconfig_keeps)
    from liveRequests_update [OF j(1), of h "Some ?new"] j(2) q(1)
    have eA: "mset (liveRequests h ?poolA) + {#q#} = mset (liveRequests h ?pool) + {#?new#}"
      by simp
    from liveRequests_update [OF j(1), of h None] j(2) q(1)
    have e1: "mset (liveRequests h pool') + {#q#} = mset (liveRequests h ?pool)"
      unfolding pool' by simp
    from liveRequests_update [OF m(1), of h "Some ?new"] m(2)
    have eB: "mset (liveRequests h (pool'[m := Some ?new]))
                = mset (liveRequests h pool') + {#?new#}"
      by simp
    from eA e1 eB have "mset (liveRequests h ?poolA) + {#q#}
        = mset (liveRequests h (pool'[m := Some ?new])) + {#q#}"
      by (simp add: ac_simps)
    then have "mset (liveRequests h ?poolA) = mset (liveRequests h (pool'[m := Some ?new]))"
      by simp
    then have "set (liveRequests h (mCliSensMatrix stA))
                 = set (liveRequests h (mCliSensMatrix stB))"
      unfolding stA stB by (rule mset_eq_setD)
    from outputs_set [OF findA findB _ this, of k] slotA slotB
    have "aggregatorOutputs k stA h = aggregatorOutputs k stB h" by simp
    with a b show ?thesis by blast
  qed
qed


theorem rateChange_agrees_with_release_request_witness:
  "sensorGetCurRequestorRate
     (mCliSensMatrix (exampleState (exampleSensor 5 0) [Some (exampleReq 7 5)])) 1 9 = None
   \<and> sensorRequestRateChange exampleH (\<lambda>_ _. True)
       (exampleState (exampleSensor 5 0) [Some (exampleReq 7 5)]) 9 1 10 0
       = Some (exampleState (exampleSensor 5 0) [Some (exampleReq 7 5)], False)
   \<and> sensorGetCurRequestorRate
       (mCliSensMatrix (exampleState (exampleSensor 5 0) [Some (exampleReq 7 5)])) 1 7
       = Some (5, SENSOR_LATENCY_INVALID)
   \<and> sensorDeleteRequestor
       (mCliSensMatrix (exampleState (exampleSensor 5 0) [Some (exampleReq 7 5)])) 1 7
       = Some (None # replicate 63 None)
   \<and> slabAllocatorAlloc_ok (None # replicate 63 (None :: SensorsClientRequest option)) (Some 0)
   \<and> (\<exists>stA stB.
        sensorRequestRateChange exampleH (\<lambda>_ _. True)
          (exampleState (exampleSensor 5 0) [Some (exampleReq 7 5)]) 7 1 10 0 = Some (stA, True)
        \<and> releaseThenRequest exampleH (\<lambda>_ _. True) (\<lambda>_ _. False) (Some 0)
          (exampleState (exampleSensor 5 0) [Some (exampleReq 7 5)]) 7 1 10 0 = Some (stB, True)
        \<and> aggregatorOutputs exampleH stA 1 = aggregatorOutputs exampleH stB 1)"
proof -
  let ?st = "exampleState (exampleSensor 5 0) [Some (exampleReq 7 5)]"
  let ?pool' = "None # replicate 63 (None :: SensorsClientRequest option)"
  have a: "sensorGetCurRequestorRate (mCliSensMatrix ?st) 1 9 = None"
    by (simp add: examples)
  have b: "sensorFindByHandle (mSensors ?st) 1 = Some 0"
    by (simp add: examples)
  have c: "si (mSensors ?st ! 0) = Some exampleInfo" "0 \<in> set (supportedRates exampleInfo)"
    by (simp_all add: examples)
  have d: "SENSOR_RATE_ONDEMAND exampleH \<noteq> SENSOR_RATE_IMPOSSIBLE"
    "SENSOR_RATE_ONCHANGE exampleH \<noteq> SENSOR_RATE_IMPOSSIBLE"
    by (simp_all add: examples sentinels)
  have e: "sensorGetCurRequestorRate (mCliSensMatrix ?st) 1 7 = Some (5, SENSOR_LATENCY_INVALID)"
    by (simp add: examples)
  have f: "sensorDeleteRequestor (mCliSensMatrix ?st) 1 7 = Some ?pool'"
    by (simp add: examples)
  have g: "slabAllocatorAlloc_ok ?pool' (Some 0)"
    by (simp add: slabAllocatorAlloc_ok_def)
  have "\<exists>stA. sensorRequestRateChange exampleH (\<lambda>_ _. True) ?st 7 1 10 0 = Some (stA, True)"
    by (simp add: sensorRequestRateChange_def sensorCalcHwRate_def sensorCalcHwRate_init_def
          examples sentinels split: prod.splits)
  then obtain stA where
    h: "sensorRequestRateChange exampleH (\<lambda>_ _. True) ?st 7 1 10 0 = Some (stA, True)" ..
  note claim = rateChange_agrees_with_release_request
    [where st = ?st and k = exampleH and drv = "\<lambda>_ _. True" and l = 0 and i = 0 and h = 1
       and r = 10 and info = exampleInfo and oldRate = 5
       and oldLatency = SENSOR_LATENCY_INVALID and pool' = ?pool' and cell = "Some 0"
       and drvRel = "\<lambda>_ _. True" and drvReq = "\<lambda>_ _. False"]
  from claim [where c = 9] a
  have i: "sensorRequestRateChange exampleH (\<lambda>_ _. True) ?st 9 1 10 0 = Some (?st, False)"
    by blast
  from claim [where c = 7] b c d e f g h
  have "\<exists>stB. releaseThenRequest exampleH (\<lambda>_ _. True) (\<lambda>_ _. False) (Some 0) ?st 7 1 10 0
           = Some (stB, True)
         \<and> aggregatorOutputs exampleH stA 1 = aggregatorOutputs exampleH stB 1"
    by auto
  with a i e f g h show ?thesis by blast
qed

text \<open>
  The claim as first stated, with equal aggregator outputs also when the rate change is
  refused, fails: with \<open>supportedRates = {5, 10, 0}\<close> and one request of rate 5, a change
  to rate 100 is refused and leaves the aggregate rate 5, while release and request leave
  the aggregate rate \<open>OFF\<close>.
\<close>

theorem rateChange_differs_counterexample:
  "sensorGetCurRequestorRate
     (mCliSensMatrix (exampleState (exampleSensor 5 SENSOR_LATENCY_INVALID)
        [Some (exampleReq 7 5)])) 1 7
     = Some (5, SENSOR_LATENCY_INVALID)
   \<and> (\<exists>stA stB.
        sensorRequestRateChange exampleH (\<lambda>_ _. True)
          (exampleState (exampleSensor 5 SENSOR_LATENCY_INVALID) [Some (exampleReq 7 5)])
          7 1 100 SENSOR_LATENCY_INVALID = Some (stA, False)
        \<and> releaseThenRequest exampleH (\<lambda>_ _. True) (\<lambda>_ _. True) (Some 0)
          (exampleState (exampleSensor 5 SENSOR_LATENCY_INVALID) [Some (exampleReq 7 5)])
          7 1 100 SENSOR_LATENCY_INVALID = Some (stB, False)
        \<and> aggregatorOutputs exampleH stA 1 = Some (Some 5, SENSOR_LATENCY_INVALID)
        \<and> aggregatorOutputs exampleH stB 1 = Some (Some SENSOR_RATE_OFF, SENSOR_LATENCY_INVALID))"
  by (simp add: sensorRequestRateChange_def releaseThenRequest_def sensorRelease_def
        sensorRequest_def aggregatorOutputs_def sensorCalcHwRate_def sensorCalcHwRate_init_def
        sensorCalcHwLatency_def sensorReconfig_def sensorCallFuncPower_def
        sensorCallFuncSetRate_def examples sentinels)

section \<open>The values of \<open>currentRate\<close>\<close>

text \<open>
  C3, as amended. In every state reached from \<open>sensorsInit\<close> by API calls and handler
  runs, with any answers of the driver, in which the rate carried by each rate-changed
  and firmware-state-changed event is an allowed value for the slot the event resolves
  to, the \<open>currentRate\<close> of every live sensor is \<open>OFF\<close>, \<open>POWERING-ON\<close>, \<open>FW-UPLOADING\<close>,
  \<open>POWERING-OFF\<close>, \<open>ON-DEMAND\<close>, \<open>ON-CHANGE\<close> or an entry of its \<open>supportedRates\<close>.
\<close>

theorem currentRate_allowed_when_payloads_allowed:
  "reachable k (sensorRateOk k) st \<Longrightarrow> liveSensorsOk k st"
proof (induction rule: reachable.induct)
  case r_init
  show ?case by (rule ok_init)
next
  case (r_register st found info ci st' h)
  then show ?case by (blast intro: ok_register)
next
  case (r_unregister st h st' b)
  then show ?case by (blast intro: ok_unregister)
next
  case (r_request st cell drv c h r l st' b)
  then show ?case by (blast intro: ok_request)
next
  case (r_rateChange st drv c h r l st' b)
  then show ?case by (blast intro: ok_rateChange)
next
  case (r_release st drv c h st' b)
  then show ?case by (blast intro: ok_release)
next
  case (r_trigger st drv c h st' b)
  then show ?case by (blast intro: ok_trigger)
next
  case (r_flush st drv h st' b)
  then show ?case by (blast intro: ok_flush)
next
  case (r_powerEvt st drv evt)
  then show ?case by (blast intro: ok_powerEvt)
next
  case (r_fwEvt st evt drv st')
  then show ?case by (blast intro: ok_fwEvt)
next
  case (r_rateEvt st evt)
  then show ?case by (blast intro: ok_rateEvt)
qed


theorem currentRate_allowed_when_payloads_allowed_witness:
  "\<exists>st. reachable exampleH (sensorRateOk exampleH) st \<and> sensorGetCurRate st 1 = 10
      \<and> liveSensorsOk exampleH st"
proof -
  let ?st = "exampleState (exampleSensor SENSOR_RATE_OFF SENSOR_LATENCY_INVALID) []"
  let ?evt = "\<lparr>evt_handle = 1, evt_value1 = 10, evt_value2 = 0\<rparr>"
  have "eventPayloadOk (sensorRateOk exampleH) ?st ?evt"
    by (simp add: eventPayloadOk_def sensorRateOk_def examples)
  with example_reachable
  have r: "reachable exampleH (sensorRateOk exampleH) (sensorInternalRateChanged ?st ?evt)"
    by (rule r_rateEvt)
  have "sensorGetCurRate (sensorInternalRateChanged ?st ?evt) 1 = 10"
    by (simp add: sensorGetCurRate_def sensorInternalRateChanged_def examples)
  with r currentRate_allowed_when_payloads_allowed [OF r] show ?thesis by blast
qed

text \<open>
  With arbitrary payloads the property fails: the handlers store the payload as it comes.
  After a sensor with \<open>supportedRates = {5, 10, 0}\<close> is registered, a rate-changed event
  carrying the rate 7 leaves \<open>currentRate = 7\<close>.
\<close>

theorem currentRate_not_allowed_counterexample:
  "\<exists>st. reachable exampleH (\<lambda>_ _. True) st \<and> sensorGetCurRate st 1 = 7
      \<and> \<not> liveSensorsOk exampleH st"
proof -
  let ?st = "exampleState (exampleSensor SENSOR_RATE_OFF SENSOR_LATENCY_INVALID) []"
  let ?evt = "\<lparr>evt_handle = 1, evt_value1 = 7, evt_value2 = 0\<rparr>"
  have "eventPayloadOk (\<lambda>_ _. True) ?st ?evt"
    by (simp add: eventPayloadOk_def split: option.splits)
  with example_reachable
  have r: "reachable exampleH (\<lambda>_ _. True) (sensorInternalRateChanged ?st ?evt)"
    by (rule r_rateEvt)
  have v: "sensorGetCurRate (sensorInternalRateChanged ?st ?evt) 1 = 7"
    by (simp add: sensorGetCurRate_def sensorInternalRateChanged_def examples)
  have n: "\<not> liveSensorsOk exampleH (sensorInternalRateChanged ?st ?evt)"
    by (simp add: liveSensorsOk_def slotOk_def sensorRateOk_def sensorInternalRateChanged_def
          examples sentinels)
  from r v n show ?thesis by blast
qed

section \<open>The getters at handle zero\<close>

text \<open>
  C5. The handle 0 does not identify a registered sensor, yet \<open>sensorFindByHandle\<close>
  compares it like any other and resolves it to the first free slot, whose fields the
  getters then return. Right after \<open>sensorsInit\<close> the slots are zero-initialised, so
  \<open>sensorGetCurLatency(0)\<close> is 0 and not \<open>INVALID\<close>. After a sensor is registered,
  requested (the driver accepting the power-on) and unregistered, no sensor is live and
  \<open>sensorGetCurRate(0)\<close> is the residue \<open>POWERING-ON\<close> and not \<open>OFF\<close>.
\<close>

theorem sensorGetCur_resolves_handle_zero:
  "sensorGetCurLatency (sensorsInit exampleH) 0 = 0
   \<and> (0::u64) \<noteq> SENSOR_LATENCY_INVALID
   \<and> (\<exists>st1 st2 st3.
        sensorRegisterEx (sensorsInit exampleH) exampleInfo 0 (Some 0) = Some (st1, 1)
        \<and> sensorRequest exampleH (\<lambda>_ _. True) (Some 0) st1 7 1 5 SENSOR_LATENCY_INVALID
            = Some (st2, True)
        \<and> sensorUnregister st2 1 = (st3, True)
        \<and> sensorFindByHandle (mSensors st3) 1 = None
        \<and> sensorGetCurRate st3 0 = SENSOR_RATE_POWERING_ON
        \<and> SENSOR_RATE_POWERING_ON \<noteq> SENSOR_RATE_OFF)"
proof -
  let ?st1 = "exampleState (exampleSensor SENSOR_RATE_OFF SENSOR_LATENCY_INVALID) []"
  have a: "sensorGetCurLatency (sensorsInit exampleH) 0 = 0"
    by (simp add: sensorGetCurLatency_def sensorsInit_def exampleH_def zeroSensor_def
          numeral_2_eq_2)
  have b: "(0::u64) \<noteq> SENSOR_LATENCY_INVALID" "SENSOR_RATE_POWERING_ON \<noteq> SENSOR_RATE_OFF"
    by (simp_all add: sentinels)
  have "\<exists>st2. sensorRequest exampleH (\<lambda>_ _. True) (Some 0) ?st1 7 1 5 SENSOR_LATENCY_INVALID
                 = Some (st2, True)
          \<and> mSensors st2 = [exampleSensor SENSOR_RATE_POWERING_ON SENSOR_LATENCY_INVALID,
                              zeroSensor]"
    by (simp add: sensorRequest_def sensorAddRequestor_def sensorCalcHwRate_def
          sensorCalcHwRate_init_def sensorCalcHwLatency_def sensorReconfig_def
          sensorCallFuncPower_def examples sentinels)
  then obtain st2 where
    c: "sensorRequest exampleH (\<lambda>_ _. True) (Some 0) ?st1 7 1 5 SENSOR_LATENCY_INVALID
          = Some (st2, True)"
    and s2: "mSensors st2 = [exampleSensor SENSOR_RATE_POWERING_ON SENSOR_LATENCY_INVALID,
                              zeroSensor]"
    by blast
  have "\<exists>st3. sensorUnregister st2 1 = (st3, True)
          \<and> sensorFindByHandle (mSensors st3) 1 = None
          \<and> sensorGetCurRate st3 0 = SENSOR_RATE_POWERING_ON"
    by (simp add: sensorUnregister_def sensorGetCurRate_def s2 exampleSensor_def zeroSensor_def)
  with example_registered c a b show ?thesis by blast
qed

end
